theory Spec2Isabelle
  imports Complex_Main "HOL-Library.Sublist"
begin

section \<open>Marquette: text boxes over a rendered page\<close>

text \<open>
  The development embeds the annotation editing engine of \<^verbatim>\<open>marquette.py\<close> (and the click
  placement of its older sibling \<^verbatim>\<open>p4.py\<close>): the box model, the command log with undo and
  redo, the edit operations of the page view, the geometry clamps, the font mapping and
  the save loop.

  Conventions of the embedding.
  \<^item> Python objects with identity (the \<^verbatim>\<open>TextBoxWidget\<close> instances) live in a store
    \<open>widgets\<close> indexed by natural numbers; \<open>next_id\<close> is the next unused address, and
    constructing a widget allocates it.
  \<^item> The closures handed to \<^verbatim>\<open>Command\<close> are defunctionalised: one constructor per
    call site, holding the variables the closure captures.
  \<^item> A Python exception is a value: a call returns \<open>Returned s\<close> or \<open>Raised e s\<close>, where
    \<open>s\<close> is the state the call has left behind (the event loop goes on from there).
  \<^item> Qt classes are modelled as far as the code reads them: \<^verbatim>\<open>QRect\<close> with its
    inclusive corner coordinates, \<^verbatim>\<open>QPoint\<close> as a pair, \<^verbatim>\<open>QFont\<close> as its family name,
    \<^verbatim>\<open>QLineEdit\<close> as the text it holds; \<^verbatim>\<open>setGeometry\<close> and \<^verbatim>\<open>setText\<close> store what
    they are given. Purely visual calls (cursor shapes, the rubber
    band, \<^verbatim>\<open>raise_\<close>, \<^verbatim>\<open>setFocus\<close>, the font of the line edit) are left out.
    Signals that Qt emits as a consequence of a call are events of their own.
  \<^item> A Python \<^verbatim>\<open>str\<close> is a sequence of Unicode code points. The text of a box, of a line
    edit and of an annotation is the list of its code points, natural numbers, and
    \<^verbatim>\<open>str.strip\<close> removes the whitespace code points of CPython. Family names of fonts,
    the identifiers of the base fonts and file paths are 8-bit strings, on which
    \<^verbatim>\<open>str.lower\<close> maps the ASCII capitals.
  \<^item> Methods keep their names, without the leading underscore. The mouse handlers of
    \<^verbatim>\<open>TextBoxWidget\<close> and of \<^verbatim>\<open>PageView\<close> carry the prefixes \<open>tb_\<close> and \<open>pv_\<close>, the
    field \<^verbatim>\<open>BoxModel.text\<close> is \<open>box_text\<close>, and \<^verbatim>\<open>PageView.page_index\<close> is
    \<open>pv_page_index\<close>.
  \<^item> Where the two files differ, \<^verbatim>\<open>marquette.py\<close> is followed: \<^verbatim>\<open>p4.py\<close> has no move
    gesture and no drag placement, and copies the \<^verbatim>\<open>before\<close> model in
    \<^verbatim>\<open>set_font_settings\<close> where \<^verbatim>\<open>marquette.py\<close> keeps a reference to it (models are
    replaced, never mutated, so the two are the same value).
\<close>

subsection \<open>Strings\<close>

text \<open>
  \<^verbatim>\<open>str.strip()\<close> removes the leading and trailing code points that CPython counts as
  whitespace (\<^verbatim>\<open>_PyUnicode_IsWhitespace\<close>, which also decides \<^verbatim>\<open>str.isspace\<close>): tab to
  carriage return, the four information separators, the blank, and the 19 others
  below, from next line (U+0085) and no-break space (U+00A0) to the ideographic space
  (U+3000).
\<close>

type_synonym str = "nat list"

definition py_isspace :: "nat \<Rightarrow> bool" where
  "py_isspace c \<longleftrightarrow> c \<in> set [0x09, 0x0A, 0x0B, 0x0C, 0x0D, 0x1C, 0x1D, 0x1E, 0x1F, 0x20,
                               0x85, 0xA0, 0x1680,
                               0x2000, 0x2001, 0x2002, 0x2003, 0x2004, 0x2005, 0x2006,
                               0x2007, 0x2008, 0x2009, 0x200A,
                               0x2028, 0x2029, 0x202F, 0x205F, 0x3000]"

definition strip :: "str \<Rightarrow> str" where
  "strip s = rev (dropWhile py_isspace (rev (dropWhile py_isspace s)))"

text \<open>
  \<^verbatim>\<open>str.lower()\<close> on a family name maps \<open>A\<close> to \<open>Z\<close> to the letter 32 code points up,
  which is the same byte with bit 5 set, and leaves every other byte as it is.
\<close>

fun py_lower_char :: "char \<Rightarrow> char" where
  "py_lower_char (Char b0 b1 b2 b3 b4 b5 b6 b7) =
     (let n = (of_char (Char b0 b1 b2 b3 b4 b5 b6 b7) :: nat)
      in if 65 \<le> n \<and> n \<le> 90 then Char b0 b1 b2 b3 b4 True b6 b7
         else Char b0 b1 b2 b3 b4 b5 b6 b7)"

definition lower :: "string \<Rightarrow> string" where
  "lower s = map py_lower_char s"

text \<open>\<^verbatim>\<open>any(k in fam for k in ks)\<close>: \<^verbatim>\<open>in\<close> on strings is the contiguous-substring test.\<close>

definition any_in :: "string list \<Rightarrow> string \<Rightarrow> bool" where
  "any_in ks fam \<longleftrightarrow> list_ex (\<lambda>k. sublist k fam) ks"

subsection \<open>Font mapping\<close>

type_synonym QFont = string

definition qfont_to_pdf_basefont :: "QFont \<Rightarrow> string" where
  "qfont_to_pdf_basefont qfont =
     (let fam = lower qfont
      in if any_in [''courier'', ''consolas'', ''mono'', ''dejavu sans mono'', ''liberation mono''] fam
         then ''cour''
         else if any_in [''times'', ''serif'', ''dejavu serif'', ''liberation serif''] fam
         then ''tiro''
         else ''helv'')"

text \<open>
  The three portable identifiers of the specification are the base-14 names the code
  returns: \<open>cour\<close> (Courier, monospace), \<open>tiro\<close> (Times, serif), \<open>helv\<close> (Helvetica,
  sans-serif).
\<close>

datatype font_class = Monospace | Serif | SansSerif

definition font_class_of :: "string \<Rightarrow> font_class option" where
  "font_class_of n =
     (if n = ''cour'' then Some Monospace
      else if n = ''tiro'' then Some Serif
      else if n = ''helv'' then Some SansSerif
      else None)"

text \<open>The mapping as the specification words it, with the three keywords and two keywords.\<close>

definition spec_font_class :: "string \<Rightarrow> font_class" where
  "spec_font_class name =
     (if any_in [''courier'', ''consolas'', ''mono''] (lower name) then Monospace
      else if any_in [''times'', ''serif''] (lower name) then Serif
      else SansSerif)"

subsection \<open>Rectangles and points of the toolkit\<close>

type_synonym QPoint = "int \<times> int"

text \<open>
  \<^verbatim>\<open>QRect\<close> stores its top-left and bottom-right pixels, both inclusive: \<^verbatim>\<open>right()\<close> is
  \<open>x + width - 1\<close> and \<^verbatim>\<open>bottom()\<close> is \<open>y + height - 1\<close>. Coordinates are unbounded
  integers here (C++ \<^verbatim>\<open>int\<close> in Qt; pixel coordinates stay far from its limits).
\<close>

record QRect =
  rx1 :: int
  ry1 :: int
  rx2 :: int
  ry2 :: int

definition QRect_xywh :: "int \<Rightarrow> int \<Rightarrow> int \<Rightarrow> int \<Rightarrow> QRect" where
  "QRect_xywh x y w h = \<lparr>rx1 = x, ry1 = y, rx2 = x + w - 1, ry2 = y + h - 1\<rparr>"

definition QRect_points :: "QPoint \<Rightarrow> QPoint \<Rightarrow> QRect" where
  "QRect_points p q = \<lparr>rx1 = fst p, ry1 = snd p, rx2 = fst q, ry2 = snd q\<rparr>"

definition QRect_null :: QRect where
  "QRect_null = \<lparr>rx1 = 0, ry1 = 0, rx2 = - 1, ry2 = - 1\<rparr>"

definition r_left :: "QRect \<Rightarrow> int" where "r_left r = rx1 r"
definition r_top :: "QRect \<Rightarrow> int" where "r_top r = ry1 r"
definition r_right :: "QRect \<Rightarrow> int" where "r_right r = rx2 r"
definition r_bottom :: "QRect \<Rightarrow> int" where "r_bottom r = ry2 r"
definition r_x :: "QRect \<Rightarrow> int" where "r_x r = rx1 r"
definition r_y :: "QRect \<Rightarrow> int" where "r_y r = ry1 r"
definition r_width :: "QRect \<Rightarrow> int" where "r_width r = rx2 r - rx1 r + 1"
definition r_height :: "QRect \<Rightarrow> int" where "r_height r = ry2 r - ry1 r + 1"

text \<open>
  \<^verbatim>\<open>QRect.normalized()\<close> of Qt 6: a rectangle of negative width has its left and right
  corners swapped (and made inclusive), likewise for a negative height.
\<close>

definition normalized :: "QRect \<Rightarrow> QRect" where
  "normalized r =
     (let r1 = (if rx2 r < rx1 r then r\<lparr>rx1 := rx2 r + 1, rx2 := rx1 r - 1\<rparr> else r)
      in if ry2 r < ry1 r then r1\<lparr>ry1 := ry2 r + 1, ry2 := ry1 r - 1\<rparr> else r1)"

text \<open>\<^verbatim>\<open>QWidget.move\<close>: a new top-left corner, the size kept.\<close>

definition moved_to :: "QPoint \<Rightarrow> QRect \<Rightarrow> QRect" where
  "moved_to p r = QRect_xywh (fst p) (snd p) (r_width r) (r_height r)"

subsection \<open>Data model\<close>

record BoxModel =
  page_index :: int
  rect_px :: QRect
  box_text :: str
  qfont :: QFont
  fontsize_pt :: int

subsection \<open>Commands\<close>

text \<open>
  One constructor per pair of closures built in the source:
  \<^item> \<open>AddBox box\<close> in \<^verbatim>\<open>_create_box\<close> (and \<^verbatim>\<open>add_box_at_click\<close>);
  \<^item> \<open>UpdateBox box before after\<close> in \<^verbatim>\<open>_on_change_commit\<close>;
  \<^item> \<open>ChangeFont before after\<close> in \<^verbatim>\<open>set_font_settings\<close>: its closures name
    \<^verbatim>\<open>self.selected\<close>, read when the closure runs, and capture no box;
  \<^item> \<open>DeleteBox box idx before_model\<close> in \<^verbatim>\<open>_request_delete\<close>.
\<close>

datatype Command =
    AddBox nat
  | UpdateBox nat BoxModel BoxModel
  | ChangeFont BoxModel BoxModel
  | DeleteBox nat nat BoxModel

fun name :: "Command \<Rightarrow> string" where
  "name (AddBox b) = ''Add Box''"
| "name (UpdateBox b before after) = ''Update Box''"
| "name (ChangeFont before after) = ''Change Font''"
| "name (DeleteBox b idx m) = ''Delete Box''"

datatype error = AttributeError | ValueError | ZeroDivisionError | DocumentError

datatype 'a result = Returned 'a | Raised error 'a

fun state_of :: "'a result \<Rightarrow> 'a" where
  "state_of (Returned s) = s"
| "state_of (Raised e s) = s"

fun returned :: "'a result \<Rightarrow> bool" where
  "returned (Returned s) = True"
| "returned (Raised e s) = False"

fun raised :: "'a result \<Rightarrow> error option" where
  "raised (Returned s) = None"
| "raised (Raised e s) = Some e"

subsection \<open>Widgets and the page view\<close>

record TextBoxWidget =
  model :: BoxModel
  edit_text :: str
  geometry :: QRect
  visible :: bool
  resizing :: bool
  resize_start_global :: QPoint
  start_geom :: QRect
  moving :: bool
  move_start_global :: QPoint
  start_pos :: QPoint

definition MIN_W :: int where "MIN_W = 60"
definition MIN_H :: int where "MIN_H = 28"
definition BORDER_GRAB_PX :: int where "BORDER_GRAB_PX = 7"

text \<open>
  The page view. \<open>undo_list\<close> and \<open>redo_list\<close> are \<^verbatim>\<open>self.undo._undo\<close> and
  \<^verbatim>\<open>self.undo._redo\<close> (Python lists, the top of the stack last); \<open>pv_width\<close> and
  \<open>pv_height\<close> are the size of the widget itself, which a box reads as
  \<^verbatim>\<open>parent.width()\<close> and \<^verbatim>\<open>parent.height()\<close>.
\<close>

record PageView =
  pv_page_index :: int
  zoom :: real
  image_w_px :: int
  image_h_px :: int
  pv_width :: int
  pv_height :: int
  current_qfont :: QFont
  current_fontsize :: int
  boxes :: "nat list"
  selected :: "nat option"
  undo_list :: "Command list"
  redo_list :: "Command list"
  text_tool_enabled :: bool
  dragging :: bool
  drag_start :: QPoint
  default_click_w :: int
  default_click_h :: int
  widgets :: "nat \<Rightarrow> TextBoxWidget"
  next_id :: nat

definition update_widget :: "nat \<Rightarrow> (TextBoxWidget \<Rightarrow> TextBoxWidget) \<Rightarrow> PageView \<Rightarrow> PageView" where
  "update_widget b f s = s\<lparr>widgets := (widgets s)(b := f (widgets s b))\<rparr>"

text \<open>\<^verbatim>\<open>TextBoxWidget.__init__\<close> and \<^verbatim>\<open>TextBoxWidget.set_model\<close>.\<close>

definition new_widget :: "BoxModel \<Rightarrow> TextBoxWidget" where
  "new_widget m =
     \<lparr>model = m, edit_text = box_text m, geometry = rect_px m, visible = False,
      resizing = False, resize_start_global = (0, 0), start_geom = QRect_null,
      moving = False, move_start_global = (0, 0), start_pos = (0, 0)\<rparr>"

definition set_model :: "BoxModel \<Rightarrow> TextBoxWidget \<Rightarrow> TextBoxWidget" where
  "set_model m w = w\<lparr>model := m, edit_text := box_text m, geometry := rect_px m\<rparr>"

definition setVisible :: "bool \<Rightarrow> TextBoxWidget \<Rightarrow> TextBoxWidget" where
  "setVisible v w = w\<lparr>visible := v\<rparr>"

text \<open>
  \<^verbatim>\<open>PageView.__init__\<close>; the widget starts with the size \<open>w0\<close>, \<open>h0\<close> the toolkit gives
  it. No widget is allocated yet: what the store holds at unused addresses is never read
  before \<^verbatim>\<open>TextBoxWidget.__init__\<close> has written it.
\<close>

definition PageView_init :: "int \<Rightarrow> int \<Rightarrow> PageView" where
  "PageView_init w0 h0 =
     \<lparr>pv_page_index = 0, zoom = 2.0, image_w_px = 0, image_h_px = 0,
      pv_width = w0, pv_height = h0,
      current_qfont = ''Arial'', current_fontsize = 12,
      boxes = [], selected = None, undo_list = [], redo_list = [],
      text_tool_enabled = False, dragging = False, drag_start = (0, 0),
      default_click_w = 360, default_click_h = 30,
      widgets = (\<lambda>_. new_widget \<lparr>page_index = 0, rect_px = QRect_null, box_text = [],
                                     qfont = [], fontsize_pt = 0\<rparr>),
      next_id = 0\<rparr>"

subsection \<open>Python list operations\<close>

text \<open>\<^verbatim>\<open>list.index\<close> raises \<^verbatim>\<open>ValueError\<close> when the element is absent.\<close>

fun list_index :: "'a \<Rightarrow> 'a list \<Rightarrow> nat option" where
  "list_index x [] = None"
| "list_index x (y # ys) =
     (if x = y then Some 0 else map_option Suc (list_index x ys))"

text \<open>\<^verbatim>\<open>list.insert(idx, x)\<close> for \<open>idx \<ge> 0\<close>; beyond the end it appends.\<close>

definition list_insert :: "nat \<Rightarrow> 'a \<Rightarrow> 'a list \<Rightarrow> 'a list" where
  "list_insert idx x xs = take idx xs @ x # drop idx xs"

text \<open>\<^verbatim>\<open>if box in self.boxes: self.boxes.remove(box)\<close>: the first occurrence goes.\<close>

definition remove_if_in :: "'a \<Rightarrow> 'a list \<Rightarrow> 'a list" where
  "remove_if_in x xs = (if x \<in> set xs then remove1 x xs else xs)"

subsection \<open>Running a command\<close>

definition hide_and_deselect :: "nat \<Rightarrow> PageView \<Rightarrow> PageView" where
  "hide_and_deselect b s =
     (let s1 = s\<lparr>boxes := remove_if_in b (boxes s)\<rparr>;
          s2 = update_widget b (setVisible False) s1
      in if selected s2 = Some b then s2\<lparr>selected := None\<rparr> else s2)"

fun cmd_do :: "Command \<Rightarrow> PageView \<Rightarrow> PageView result" where
  "cmd_do (AddBox b) s =
     Returned ((update_widget b (setVisible True) (s\<lparr>boxes := boxes s @ [b]\<rparr>))
                 \<lparr>selected := Some b\<rparr>)"
| "cmd_do (UpdateBox b before after) s = Returned (update_widget b (set_model after) s)"
| "cmd_do (ChangeFont before after) s =
     (case selected s of
        None \<Rightarrow> Raised AttributeError s
      | Some b \<Rightarrow> Returned (update_widget b (set_model after) s))"
| "cmd_do (DeleteBox b idx before_model) s = Returned (hide_and_deselect b s)"

fun cmd_undo :: "Command \<Rightarrow> PageView \<Rightarrow> PageView result" where
  "cmd_undo (AddBox b) s = Returned (hide_and_deselect b s)"
| "cmd_undo (UpdateBox b before after) s = Returned (update_widget b (set_model before) s)"
| "cmd_undo (ChangeFont before after) s =
     (case selected s of
        None \<Rightarrow> Raised AttributeError s
      | Some b \<Rightarrow> Returned (update_widget b (set_model before) s))"
| "cmd_undo (DeleteBox b idx before_model) s =
     Returned (update_widget b (setVisible True)
                (update_widget b (set_model before_model)
                  (s\<lparr>boxes := list_insert idx b (boxes s)\<rparr>)))"

subsection \<open>UndoStack\<close>

text \<open>
  An exception inside \<^verbatim>\<open>cmd.do()\<close> or \<^verbatim>\<open>cmd.undo()\<close> leaves the method at that line:
  in \<^verbatim>\<open>undo\<close> and \<^verbatim>\<open>redo\<close> the command has been popped already and is not pushed on the
  other list.
\<close>

definition push_and_do :: "Command \<Rightarrow> PageView \<Rightarrow> PageView result" where
  "push_and_do cmd s =
     (case cmd_do cmd s of
        Raised e s1 \<Rightarrow> Raised e s1
      | Returned s1 \<Rightarrow> Returned (s1\<lparr>undo_list := undo_list s1 @ [cmd], redo_list := []\<rparr>))"

definition undo :: "PageView \<Rightarrow> PageView result" where
  "undo s =
     (if undo_list s = [] then Returned s
      else let cmd = last (undo_list s);
               s1 = s\<lparr>undo_list := butlast (undo_list s)\<rparr>
           in case cmd_undo cmd s1 of
                Raised e s2 \<Rightarrow> Raised e s2
              | Returned s2 \<Rightarrow> Returned (s2\<lparr>redo_list := redo_list s2 @ [cmd]\<rparr>))"

definition redo :: "PageView \<Rightarrow> PageView result" where
  "redo s =
     (if redo_list s = [] then Returned s
      else let cmd = last (redo_list s);
               s1 = s\<lparr>redo_list := butlast (redo_list s)\<rparr>
           in case cmd_do cmd s1 of
                Raised e s2 \<Rightarrow> Raised e s2
              | Returned s2 \<Rightarrow> Returned (s2\<lparr>undo_list := undo_list s2 @ [cmd]\<rparr>))"

subsection \<open>Geometry of the edit operations\<close>

text \<open>
  The click placement: lines 459 to 466 of \<^verbatim>\<open>_create_box\<close>, and the same lines of
  \<^verbatim>\<open>add_box_at_click\<close> in \<^verbatim>\<open>p4.py\<close>. \<open>None\<close> is the early \<^verbatim>\<open>return\<close>.
\<close>

definition click_rect :: "int \<Rightarrow> int \<Rightarrow> int \<Rightarrow> int \<Rightarrow> QPoint \<Rightarrow> QRect option" where
  "click_rect W H dw dh p =
     (let x = fst p;
          y = snd p - (dh div 2);
          y = max 0 (min y (H - dh));
          max_w = W - x;
          w = min dw max_w
      in if w < 40 then None else Some (QRect_xywh x y w dh))"

text \<open>The drag placement: lines 468 to 478 of \<^verbatim>\<open>_create_box\<close>.\<close>

definition drag_rect :: "int \<Rightarrow> int \<Rightarrow> QRect \<Rightarrow> QRect" where
  "drag_rect W H r =
     (let x0 = max 0 (min (r_left r) (W - 1));
          y0 = max 0 (min (r_top r) (H - 1));
          x1 = max 0 (min (r_right r) (W - 1));
          y1 = max 0 (min (r_bottom r) (H - 1));
          r = normalized (QRect_points (x0, y0) (x1, y1));
          w = max MIN_W (r_width r);
          h = max MIN_H (r_height r);
          w = min w (W - r_x r);
          h = min h (H - r_y r)
      in QRect_xywh (r_x r) (r_y r) w h)"

definition create_box_rect :: "int \<Rightarrow> int \<Rightarrow> int \<Rightarrow> int \<Rightarrow> QRect \<Rightarrow> bool \<Rightarrow> QRect option" where
  "create_box_rect W H dw dh rect treat_as_drag_rect =
     (if treat_as_drag_rect then
        (let r = normalized rect
         in if r_width r < 40 \<and> r_height r < 20 then click_rect W H dw dh (r_x r, r_y r)
            else Some (drag_rect W H r))
      else Some rect)"

text \<open>The two branches of \<^verbatim>\<open>TextBoxWidget.mouseMoveEvent\<close>.\<close>

definition resize_geom :: "QRect \<Rightarrow> QPoint \<Rightarrow> int \<Rightarrow> int \<Rightarrow> QRect" where
  "resize_geom sg delta pw ph =
     (let new_w = max MIN_W (r_width sg + fst delta);
          new_h = max MIN_H (r_height sg + snd delta);
          max_w = pw - r_x sg;
          max_h = ph - r_y sg;
          new_w = min new_w max_w;
          new_h = min new_h max_h
      in QRect_xywh (r_x sg) (r_y sg) new_w new_h)"

definition move_pos :: "QPoint \<Rightarrow> QPoint \<Rightarrow> int \<Rightarrow> int \<Rightarrow> int \<Rightarrow> int \<Rightarrow> QPoint" where
  "move_pos sp delta w h pw ph =
     (let new_pos = (fst sp + fst delta, snd sp + snd delta);
          new_x = max 0 (min (fst new_pos) (pw - w));
          new_y = max 0 (min (snd new_pos) (ph - h))
      in (new_x, new_y))"

subsection \<open>Operations of the page view\<close>

definition on_selected :: "nat \<Rightarrow> PageView \<Rightarrow> PageView" where
  "on_selected b s = s\<lparr>selected := Some b\<rparr>"

definition on_change_commit :: "nat \<Rightarrow> BoxModel \<Rightarrow> BoxModel \<Rightarrow> PageView \<Rightarrow> PageView result" where
  "on_change_commit b before after s = push_and_do (UpdateBox b before after) s"

definition request_delete :: "nat \<Rightarrow> PageView \<Rightarrow> PageView result" where
  "request_delete b s =
     (if b \<notin> set (boxes s) then Returned s
      else case list_index b (boxes s) of
             None \<Rightarrow> Raised ValueError s
           | Some idx \<Rightarrow> push_and_do (DeleteBox b idx (model (widgets s b))) s)"

definition set_font_settings :: "QFont \<Rightarrow> int \<Rightarrow> PageView \<Rightarrow> PageView result" where
  "set_font_settings f fontsize s =
     (let s1 = s\<lparr>current_qfont := f, current_fontsize := fontsize\<rparr>
      in case selected s1 of
           None \<Rightarrow> Returned s1
         | Some b \<Rightarrow>
             let before = model (widgets s1 b);
                 after = \<lparr>page_index = page_index (model (widgets s1 b)),
                          rect_px = geometry (widgets s1 b),
                          box_text = edit_text (widgets s1 b),
                          qfont = current_qfont s1,
                          fontsize_pt = current_fontsize s1\<rparr>
             in push_and_do (ChangeFont before after) s1)"

fun set_visibility :: "int \<Rightarrow> nat list \<Rightarrow> (nat \<Rightarrow> TextBoxWidget) \<Rightarrow> (nat \<Rightarrow> TextBoxWidget)" where
  "set_visibility pidx [] ws = ws"
| "set_visibility pidx (b # bs) ws =
     set_visibility pidx bs (ws(b := setVisible (page_index (model (ws b)) = pidx) (ws b)))"

text \<open>
  \<^verbatim>\<open>set_rendered_page\<close>: \<^verbatim>\<open>self.resize(qpix.size())\<close> gives the page view the size of the
  image \<open>qpix\<close>, here the pair of its width and height; the layout around the page view
  is taken to leave that size alone.
\<close>

definition set_rendered_page :: "int \<times> int \<Rightarrow> int \<Rightarrow> real \<Rightarrow> PageView \<Rightarrow> PageView" where
  "set_rendered_page qpix pidx z s =
     (let s1 = s\<lparr>image_w_px := fst qpix, image_h_px := snd qpix, pv_page_index := pidx,
                 zoom := z, pv_width := fst qpix, pv_height := snd qpix\<rparr>
      in s1\<lparr>widgets := set_visibility pidx (boxes s1) (widgets s1)\<rparr>)"

text \<open>
  The second half of \<^verbatim>\<open>_create_box\<close> (lines 482 to 515), shared with \<^verbatim>\<open>add_box_at_click\<close>:
  the model, the new widget, the command.
\<close>

definition place_box :: "QRect \<Rightarrow> PageView \<Rightarrow> PageView result" where
  "place_box r s =
     (let m = \<lparr>page_index = pv_page_index s, rect_px = r, box_text = [],
               qfont = current_qfont s, fontsize_pt = current_fontsize s\<rparr>;
          b = next_id s;
          s1 = s\<lparr>widgets := (widgets s)(b := setVisible True (new_widget m)),
                 next_id := Suc b\<rparr>
      in push_and_do (AddBox b) s1)"

definition create_box :: "QRect \<Rightarrow> bool \<Rightarrow> PageView \<Rightarrow> PageView result" where
  "create_box rect treat_as_drag_rect s =
     (case create_box_rect (image_w_px s) (image_h_px s) (default_click_w s) (default_click_h s)
             rect treat_as_drag_rect of
        None \<Rightarrow> Returned s
      | Some r \<Rightarrow> place_box r s)"

definition spawn_default_box_left_middle :: "PageView \<Rightarrow> PageView result" where
  "spawn_default_box_left_middle s =
     (if image_w_px s \<le> 0 \<or> image_h_px s \<le> 0 then Returned s
      else let x = 30;
               y = max 0 ((image_h_px s div 2) - (default_click_h s div 2));
               w = min (default_click_w s) (image_w_px s - x);
               h = default_click_h s
           in if w < 80 then Returned s
              else create_box (QRect_xywh x y w h) False s)"

text \<open>\<^verbatim>\<open>PageView.add_box_at_click\<close> of \<^verbatim>\<open>p4.py\<close> (its \<^verbatim>\<open>default_box_w\<close>, \<^verbatim>\<open>default_box_h\<close>
  are the fields \<open>default_click_w\<close>, \<open>default_click_h\<close> here).\<close>

definition add_box_at_click :: "QPoint \<Rightarrow> PageView \<Rightarrow> PageView result" where
  "add_box_at_click click_pos s =
     (case click_rect (image_w_px s) (image_h_px s) (default_click_w s) (default_click_h s)
             click_pos of
        None \<Rightarrow> Returned s
      | Some r \<Rightarrow> place_box r s)"

datatype button = LeftButton | OtherButton

text \<open>
  \<^verbatim>\<open>PageView.mousePressEvent\<close> and \<^verbatim>\<open>mouseReleaseEvent\<close>. \<open>hit\<close> is the box under the
  pointer, if any: the result of \<^verbatim>\<open>childAt\<close> and the \<^verbatim>\<open>isinstance\<close> test, which the toolkit
  computes.
\<close>

definition set_text_tool :: "bool \<Rightarrow> PageView \<Rightarrow> PageView" where
  "set_text_tool enabled s =
     (let s1 = s\<lparr>text_tool_enabled := enabled\<rparr>
      in if \<not> enabled \<and> dragging s1 then s1\<lparr>dragging := False\<rparr> else s1)"

definition pv_mousePressEvent :: "button \<Rightarrow> QPoint \<Rightarrow> nat option \<Rightarrow> PageView \<Rightarrow> PageView" where
  "pv_mousePressEvent btn pos hit s =
     (if btn \<noteq> LeftButton then s
      else case hit of
             Some b \<Rightarrow> s\<lparr>selected := Some b\<rparr>
           | None \<Rightarrow>
               if \<not> text_tool_enabled s then s
               else s\<lparr>dragging := True, drag_start := pos\<rparr>)"

definition pv_mouseReleaseEvent :: "button \<Rightarrow> QPoint \<Rightarrow> PageView \<Rightarrow> PageView result" where
  "pv_mouseReleaseEvent btn pos s =
     (if dragging s \<and> btn = LeftButton
      then create_box (QRect_points (drag_start s) pos) True (s\<lparr>dragging := False\<rparr>)
      else Returned s)"

subsection \<open>Operations of a text box\<close>

text \<open>
  The resize handle is a 10 by 10 label that \<^verbatim>\<open>_layout_children\<close> keeps in the
  bottom-right corner; positions are local to the box.
\<close>

definition r_contains :: "QRect \<Rightarrow> QPoint \<Rightarrow> bool" where
  "r_contains r p \<longleftrightarrow> rx1 r \<le> fst p \<and> fst p \<le> rx2 r \<and> ry1 r \<le> snd p \<and> snd p \<le> ry2 r"

definition handle_geometry :: "QRect \<Rightarrow> QRect" where
  "handle_geometry g = QRect_xywh (r_width g - 10) (r_height g - 10) 10 10"

definition is_on_border :: "QRect \<Rightarrow> QPoint \<Rightarrow> bool" where
  "is_on_border g p =
     (let near_left = fst p \<le> BORDER_GRAB_PX;
          near_right = fst p \<ge> r_width g - BORDER_GRAB_PX;
          near_top = snd p \<le> BORDER_GRAB_PX;
          near_bottom = snd p \<ge> r_height g - BORDER_GRAB_PX
      in near_left \<or> near_right \<or> near_top \<or> near_bottom)"

definition tb_mousePressEvent :: "nat \<Rightarrow> button \<Rightarrow> QPoint \<Rightarrow> QPoint \<Rightarrow> PageView \<Rightarrow> PageView" where
  "tb_mousePressEvent b btn pos gpos s =
     (if btn = LeftButton then
        (let s1 = on_selected b s;
             g = geometry (widgets s1 b)
         in if r_contains (handle_geometry g) pos
            then update_widget b
                   (\<lambda>w. w\<lparr>resizing := True, resize_start_global := gpos, start_geom := g\<rparr>) s1
            else if is_on_border g pos
            then update_widget b
                   (\<lambda>w. w\<lparr>moving := True, move_start_global := gpos,
                           start_pos := (r_x g, r_y g)\<rparr>) s1
            else s1)
      else s)"

definition tb_mouseMoveEvent :: "nat \<Rightarrow> QPoint \<Rightarrow> PageView \<Rightarrow> PageView" where
  "tb_mouseMoveEvent b gpos s =
     (let w = widgets s b
      in if resizing w then
           (let delta = (fst gpos - fst (resize_start_global w),
                         snd gpos - snd (resize_start_global w))
            in update_widget b
                 (\<lambda>w. w\<lparr>geometry := resize_geom (start_geom w) delta (pv_width s) (pv_height s)\<rparr>) s)
         else if moving w then
           (let delta = (fst gpos - fst (move_start_global w),
                         snd gpos - snd (move_start_global w));
                new_pos = move_pos (start_pos w) delta (r_width (geometry w))
                            (r_height (geometry w)) (pv_width s) (pv_height s)
            in update_widget b (\<lambda>w. w\<lparr>geometry := moved_to new_pos (geometry w)\<rparr>) s)
         else s)"

definition commit_geom_change :: "nat \<Rightarrow> PageView \<Rightarrow> PageView result" where
  "commit_geom_change b s =
     (let w = widgets s b;
          before = model w;
          after = \<lparr>page_index = page_index (model w), rect_px = geometry w,
                   box_text = edit_text w, qfont = qfont (model w),
                   fontsize_pt = fontsize_pt (model w)\<rparr>
      in on_change_commit b before after (update_widget b (\<lambda>w. w\<lparr>model := after\<rparr>) s))"

definition tb_mouseReleaseEvent :: "nat \<Rightarrow> button \<Rightarrow> PageView \<Rightarrow> PageView result" where
  "tb_mouseReleaseEvent b btn s =
     (if btn = LeftButton then
        (if resizing (widgets s b)
         then commit_geom_change b (update_widget b (\<lambda>w. w\<lparr>resizing := False\<rparr>) s)
         else if moving (widgets s b)
         then commit_geom_change b (update_widget b (\<lambda>w. w\<lparr>moving := False\<rparr>) s)
         else Returned s)
      else Returned s)"

definition on_editing_finished :: "nat \<Rightarrow> PageView \<Rightarrow> PageView result" where
  "on_editing_finished b s =
     (let w = widgets s b;
          txt = strip (edit_text w)
      in if txt = [] then request_delete b s
         else if txt \<noteq> box_text (model w) then
           (let before = model w;
                after = \<lparr>page_index = page_index (model w), rect_px = geometry w,
                         box_text = txt, qfont = qfont (model w),
                         fontsize_pt = fontsize_pt (model w)\<rparr>
            in on_change_commit b before after (update_widget b (\<lambda>w. w\<lparr>model := after\<rparr>) s))
         else Returned s)"

text \<open>The user typing into the line edit of a box: the text it holds changes, nothing else.\<close>

definition user_types :: "nat \<Rightarrow> str \<Rightarrow> PageView \<Rightarrow> PageView" where
  "user_types b t s = update_widget b (\<lambda>w. w\<lparr>edit_text := t\<rparr>) s"

subsection \<open>Saving\<close>

text \<open>
  \<^verbatim>\<open>fitz.Rect(x0, y0, x1, y1)\<close> is a quadruple of numbers. Python divides floats; the
  model divides reals, which is the same value wherever the quotient is a binary
  fraction (as at zoom 2.0). Division by zero raises.
\<close>

type_synonym fitz_Rect = "real \<times> real \<times> real \<times> real"

definition px_rect_to_pdf_rect :: "PageView \<Rightarrow> QRect \<Rightarrow> error + fitz_Rect" where
  "px_rect_to_pdf_rect s r =
     (if zoom s = 0 then Inl ZeroDivisionError
      else Inr (real_of_int (r_left r) / zoom s, real_of_int (r_top r) / zoom s,
                real_of_int (r_right r) / zoom s, real_of_int (r_bottom r) / zoom s))"

text \<open>
  The document library is outside the repository. An annotation is what
  \<^verbatim>\<open>add_freetext_annot\<close> was given, with the styles that were set on it. Which calls of the
  library raise is a parameter: \<open>style_fails lib k c\<close> says whether style call \<open>c\<close> on the
  \<open>k\<close>-th annotation added raises; a call that raises leaves the annotation as it was.
\<close>

record Annot =
  a_page :: int
  a_rect :: fitz_Rect
  a_text :: str
  border_width :: "int option"
  colors_cleared :: bool
  opacity :: "int option"
  default_appearance :: "(string \<times> int \<times> (int \<times> int \<times> int)) option"
  updated :: bool

datatype style_call = SetBorder | SetColors | SetOpacity | SetDefaultAppearance | Update

record doclib =
  open_fails :: "string \<Rightarrow> bool"
  load_page_fails :: "int \<Rightarrow> bool"
  add_freetext_annot_fails :: "int \<Rightarrow> fitz_Rect \<Rightarrow> str \<Rightarrow> bool"
  style_fails :: "nat \<Rightarrow> style_call \<Rightarrow> bool"
  saveIncr_fails :: bool
  close_fails :: bool

definition add_freetext_annot :: "int \<Rightarrow> fitz_Rect \<Rightarrow> str \<Rightarrow> Annot" where
  "add_freetext_annot pg rect_pt txt =
     \<lparr>a_page = pg, a_rect = rect_pt, a_text = txt, border_width = None,
      colors_cleared = False, opacity = None, default_appearance = None, updated = False\<rparr>"

text \<open>\<^verbatim>\<open>try: call except Exception: pass\<close>.\<close>

definition try_pass :: "bool \<Rightarrow> ('a \<Rightarrow> 'a) \<Rightarrow> 'a \<Rightarrow> 'a" where
  "try_pass raises call a = (if raises then a else call a)"

definition style_freetext_plain :: "doclib \<Rightarrow> nat \<Rightarrow> Annot \<Rightarrow> QFont \<Rightarrow> int \<Rightarrow> Annot" where
  "style_freetext_plain lib k annot f fontsize =
     (let a1 = try_pass (style_fails lib k SetBorder) (\<lambda>a. a\<lparr>border_width := Some 0\<rparr>) annot;
          a2 = try_pass (style_fails lib k SetColors) (\<lambda>a. a\<lparr>colors_cleared := True\<rparr>) a1;
          a3 = try_pass (style_fails lib k SetOpacity) (\<lambda>a. a\<lparr>opacity := Some 1\<rparr>) a2;
          pdf_font = qfont_to_pdf_basefont f;
          a4 = try_pass (style_fails lib k SetDefaultAppearance)
                 (\<lambda>a. a\<lparr>default_appearance := Some (pdf_font, fontsize, (0, 0, 0))\<rparr>) a3;
          a5 = try_pass (style_fails lib k Update) (\<lambda>a. a\<lparr>updated := True\<rparr>) a4
      in a5)"

text \<open>
  The loop of \<^verbatim>\<open>save_pdf\<close> over \<^verbatim>\<open>self.page_view.boxes\<close>; \<open>acc\<close> is the list of annotations
  added to the working copy so far. An exception leaves the loop.
\<close>

fun save_boxes :: "doclib \<Rightarrow> PageView \<Rightarrow> nat list \<Rightarrow> Annot list \<Rightarrow> error + Annot list" where
  "save_boxes lib s [] acc = Inr acc"
| "save_boxes lib s (b # bs) acc =
     (let txt = strip (edit_text (widgets s b))
      in if txt = [] then save_boxes lib s bs acc
         else
           (let m = model (widgets s b)
            in if load_page_fails lib (page_index m) then Inl DocumentError
               else case px_rect_to_pdf_rect s (rect_px m) of
                      Inl e \<Rightarrow> Inl e
                    | Inr rect_pt \<Rightarrow>
                        if add_freetext_annot_fails lib (page_index m) rect_pt txt
                        then Inl DocumentError
                        else
                          (let annot = add_freetext_annot (page_index m) rect_pt txt;
                               annot = style_freetext_plain lib (length acc) annot
                                         (qfont m) (fontsize_pt m)
                           in save_boxes lib s bs (acc @ [annot]))))"

datatype report = NoReport | Saved | SaveFailed

text \<open>
  \<open>persisted\<close> is what \<^verbatim>\<open>saveIncr\<close> has written to the file; \<open>report\<close> is the message box
  shown. Without a path the method returns at once.
\<close>

record save_outcome =
  persisted :: "Annot list"
  report :: report

definition save_pdf :: "doclib \<Rightarrow> string option \<Rightarrow> PageView \<Rightarrow> save_outcome" where
  "save_pdf lib path s =
     (case path of
        None \<Rightarrow> \<lparr>persisted = [], report = NoReport\<rparr>
      | Some p \<Rightarrow>
          if p = [] then \<lparr>persisted = [], report = NoReport\<rparr>
          else if open_fails lib p then \<lparr>persisted = [], report = SaveFailed\<rparr>
          else case save_boxes lib s (boxes s) [] of
                 Inl e \<Rightarrow> \<lparr>persisted = [], report = SaveFailed\<rparr>
               | Inr annots \<Rightarrow>
                   if saveIncr_fails lib then \<lparr>persisted = [], report = SaveFailed\<rparr>
                   else if close_fails lib then \<lparr>persisted = annots, report = SaveFailed\<rparr>
                   else \<lparr>persisted = annots, report = Saved\<rparr>)"

subsection \<open>Events\<close>

text \<open>
  What the toolkit can deliver to the page view: mouse events on the page and on a box,
  typing, the end of editing, the context-menu delete, focus, the tool button, the font
  controls, a new rendering, undo and redo.
\<close>

datatype event =
    PvPress button QPoint "nat option"
  | PvRelease button QPoint
  | SpawnDefault
  | AddAtClick QPoint
  | TbPress nat button QPoint QPoint
  | TbMove nat QPoint
  | TbRelease nat button
  | Types nat str
  | EditingFinished nat
  | RequestDelete nat
  | FocusIn nat
  | SetTextTool bool
  | SetFontSettings QFont int
  | SetRenderedPage "int \<times> int" int real
  | Undo
  | Redo

fun step :: "event \<Rightarrow> PageView \<Rightarrow> PageView result" where
  "step (PvPress btn pos hit) s = Returned (pv_mousePressEvent btn pos hit s)"
| "step (PvRelease btn pos) s = pv_mouseReleaseEvent btn pos s"
| "step SpawnDefault s = spawn_default_box_left_middle s"
| "step (AddAtClick pos) s = add_box_at_click pos s"
| "step (TbPress b btn pos gpos) s = Returned (tb_mousePressEvent b btn pos gpos s)"
| "step (TbMove b gpos) s = Returned (tb_mouseMoveEvent b gpos s)"
| "step (TbRelease b btn) s = tb_mouseReleaseEvent b btn s"
| "step (Types b t) s = Returned (user_types b t s)"
| "step (EditingFinished b) s = on_editing_finished b s"
| "step (RequestDelete b) s = request_delete b s"
| "step (FocusIn b) s = Returned (on_selected b s)"
| "step (SetTextTool enabled) s = Returned (set_text_tool enabled s)"
| "step (SetFontSettings f n) s = set_font_settings f n s"
| "step (SetRenderedPage qpix pidx z) s = Returned (set_rendered_page qpix pidx z s)"
| "step Undo s = undo s"
| "step Redo s = redo s"

fun run :: "event list \<Rightarrow> PageView \<Rightarrow> PageView" where
  "run [] s = s"
| "run (e # es) s = run es (state_of (step e s))"

text \<open>The edit operations: every event but the font controls, undo and redo.\<close>

fun edit_event :: "event \<Rightarrow> bool" where
  "edit_event (SetFontSettings f n) = False"
| "edit_event Undo = False"
| "edit_event Redo = False"
| "edit_event e = True"

text \<open>\<open>n\<close> calls of \<^verbatim>\<open>undo()\<close> in a row, stopping at the first that raises.\<close>

fun undo_times :: "nat \<Rightarrow> PageView \<Rightarrow> PageView result" where
  "undo_times 0 s = Returned s"
| "undo_times (Suc n) s =
     (case undo_times n s of
        Raised e s1 \<Rightarrow> Raised e s1
      | Returned s1 \<Rightarrow> undo s1)"

subsection \<open>The geometry clamp, as claimed and as the code keeps it\<close>

text \<open>
  \<open>clamp_ok\<close> is the invariant of the specification's "Geometry clamp" property, for a
  rectangle on a page of \<open>W\<close> by \<open>H\<close> pixels. \<open>in_page\<close> is its first four inequalities.
  \<open>min_unless_edge\<close> is what the code keeps of the last two: the page edge comes first,
  so a box may be narrower than 60 when it ends at the right edge of the page, and lower
  than 28 when it ends at the bottom edge.
\<close>

definition clamp_ok :: "int \<Rightarrow> int \<Rightarrow> QRect \<Rightarrow> bool" where
  "clamp_ok W H r \<longleftrightarrow>
     0 \<le> r_x r \<and> 0 \<le> r_y r \<and> r_x r + r_width r \<le> W \<and> r_y r + r_height r \<le> H
     \<and> r_width r \<ge> 60 \<and> r_height r \<ge> 28"

definition in_page :: "int \<Rightarrow> int \<Rightarrow> QRect \<Rightarrow> bool" where
  "in_page W H r \<longleftrightarrow>
     0 \<le> r_x r \<and> 0 \<le> r_y r \<and> r_x r + r_width r \<le> W \<and> r_y r + r_height r \<le> H"

definition min_unless_edge :: "int \<Rightarrow> int \<Rightarrow> QRect \<Rightarrow> bool" where
  "min_unless_edge W H r \<longleftrightarrow>
     (r_width r \<ge> 60 \<or> r_x r + r_width r = W) \<and> (r_height r \<ge> 28 \<or> r_y r + r_height r = H)"

text \<open>
  The events of a page that stays rendered at \<open>W\<close> by \<open>H\<close> pixels, with no click released
  left of it. \<open>page_event W H s e\<close> holds of every event \<open>e\<close> in state \<open>s\<close> but two kinds:
  \<^item> a new rendering of another pixel size (the boxes stay where they are, so a box may
    then reach beyond the new page);
  \<^item> a release, or a click of \<^verbatim>\<open>p4.py\<close>, that \<^verbatim>\<open>_create_box\<close> treats as a click (the rectangle
    from the press to the release is less than 40 wide and less than 20 high) and whose
    rectangle starts left of the page: the click placement takes its \<open>x\<close> as it is.

  \<open>page_events W H es s\<close>: each event of \<open>es\<close> is such an event in the state it meets when
  \<open>es\<close> runs from \<open>s\<close>. \<open>is_create\<close> holds of the three events that can place a box.
\<close>

fun page_event :: "int \<Rightarrow> int \<Rightarrow> PageView \<Rightarrow> event \<Rightarrow> bool" where
  "page_event W H s (SetRenderedPage qpix pidx z) \<longleftrightarrow> qpix = (W, H)"
| "page_event W H s (PvRelease btn pos) \<longleftrightarrow>
     (let r = normalized (QRect_points (drag_start s) pos)
      in r_width r < 40 \<and> r_height r < 20 \<longrightarrow> 0 \<le> r_x r)"
| "page_event W H s (AddAtClick pos) \<longleftrightarrow> 0 \<le> fst pos"
| "page_event W H s e \<longleftrightarrow> True"

fun page_events :: "int \<Rightarrow> int \<Rightarrow> event list \<Rightarrow> PageView \<Rightarrow> bool" where
  "page_events W H [] s \<longleftrightarrow> True"
| "page_events W H (e # es) s \<longleftrightarrow> page_event W H s e \<and> page_events W H es (state_of (step e s))"

fun is_create :: "event \<Rightarrow> bool" where
  "is_create (PvRelease btn pos) = True"
| "is_create (AddAtClick pos) = True"
| "is_create SpawnDefault = True"
| "is_create e = False"

text \<open>
  What holds in every state such events lead to: the page view has the size of the
  image, \<open>W\<close> by \<open>H\<close>; the click size is the initial one; and every rectangle a widget or
  a command holds lies within the page.
\<close>

fun cmd_in_page :: "int \<Rightarrow> int \<Rightarrow> Command \<Rightarrow> bool" where
  "cmd_in_page W H (AddBox b) \<longleftrightarrow> True"
| "cmd_in_page W H (UpdateBox b before after) \<longleftrightarrow>
     in_page W H (rect_px before) \<and> in_page W H (rect_px after)"
| "cmd_in_page W H (ChangeFont before after) \<longleftrightarrow>
     in_page W H (rect_px before) \<and> in_page W H (rect_px after)"
| "cmd_in_page W H (DeleteBox b idx m) \<longleftrightarrow> in_page W H (rect_px m)"

definition widget_in_page :: "int \<Rightarrow> int \<Rightarrow> TextBoxWidget \<Rightarrow> bool" where
  "widget_in_page W H w \<longleftrightarrow>
     in_page W H (geometry w) \<and> in_page W H (rect_px (model w)) \<and> in_page W H (start_geom w)"

definition page_inv :: "int \<Rightarrow> int \<Rightarrow> PageView \<Rightarrow> bool" where
  "page_inv W H s \<longleftrightarrow>
     image_w_px s = W \<and> image_h_px s = H \<and> pv_width s = W \<and> pv_height s = H
     \<and> default_click_w s = 360 \<and> default_click_h s = 30
     \<and> (\<forall>b. widget_in_page W H (widgets s b))
     \<and> list_all (cmd_in_page W H) (undo_list s) \<and> list_all (cmd_in_page W H) (redo_list s)"

subsection \<open>What a save is expected to write\<close>

text \<open>
  The boxes a save writes, the annotation expected for the \<open>k\<close>-th of them (each style
  set exactly when its call did not raise), and a library in which nothing but style
  calls can raise. \<open>annot_core\<close> is what \<^verbatim>\<open>add_freetext_annot\<close> was given.
\<close>

definition saved_boxes :: "PageView \<Rightarrow> nat list" where
  "saved_boxes s = filter (\<lambda>b. strip (edit_text (widgets s b)) \<noteq> []) (boxes s)"

definition annot_core :: "Annot \<Rightarrow> int \<times> fitz_Rect \<times> str" where
  "annot_core a = (a_page a, a_rect a, a_text a)"

definition expected_annot :: "doclib \<Rightarrow> PageView \<Rightarrow> nat \<Rightarrow> nat \<Rightarrow> Annot" where
  "expected_annot lib s k b =
     (let m = model (widgets s b)
      in \<lparr>a_page = page_index m,
          a_rect = (real_of_int (r_left (rect_px m)) / zoom s,
                    real_of_int (r_top (rect_px m)) / zoom s,
                    real_of_int (r_right (rect_px m)) / zoom s,
                    real_of_int (r_bottom (rect_px m)) / zoom s),
          a_text = strip (edit_text (widgets s b)),
          border_width = (if style_fails lib k SetBorder then None else Some 0),
          colors_cleared = (\<not> style_fails lib k SetColors),
          opacity = (if style_fails lib k SetOpacity then None else Some 1),
          default_appearance =
            (if style_fails lib k SetDefaultAppearance then None
             else Some (qfont_to_pdf_basefont (qfont m), fontsize_pt m, (0, 0, 0))),
          updated = (\<not> style_fails lib k Update)\<rparr>)"

definition only_styles_fail :: "doclib \<Rightarrow> bool" where
  "only_styles_fail lib \<longleftrightarrow>
     (\<forall>p. \<not> open_fails lib p) \<and> (\<forall>i. \<not> load_page_fails lib i)
     \<and> (\<forall>i r t. \<not> add_freetext_annot_fails lib i r t)
     \<and> \<not> saveIncr_fails lib \<and> \<not> close_fails lib"

subsection \<open>What an undo has to restore\<close>

text \<open>
  \<open>boxes_allocated s\<close>: every box of the collection is an allocated widget.
  \<open>restores s t\<close>: state \<open>t\<close> has the collection of \<open>s\<close> (same boxes, same order), the
  model of \<open>s\<close> in every widget \<open>s\<close> has allocated, and the applied stack of \<open>s\<close>.
  \<open>pushed s c s1\<close>: \<open>s1\<close> is \<open>s\<close> after command \<open>c\<close> was pushed and run, as far as the
  collection and the models go.
\<close>

definition boxes_allocated :: "PageView \<Rightarrow> bool" where
  "boxes_allocated s \<longleftrightarrow> (\<forall>b \<in> set (boxes s). b < next_id s)"

definition restores :: "PageView \<Rightarrow> PageView \<Rightarrow> bool" where
  "restores s t \<longleftrightarrow>
     boxes t = boxes s \<and> undo_list t = undo_list s \<and> next_id s \<le> next_id t
     \<and> (\<forall>d. d < next_id s \<longrightarrow> model (widgets t d) = model (widgets s d))"

fun pushed :: "PageView \<Rightarrow> Command \<Rightarrow> PageView \<Rightarrow> bool" where
  "pushed s (AddBox b) s1 \<longleftrightarrow>
     undo_list s1 = undo_list s @ [AddBox b] \<and> next_id s \<le> next_id s1
     \<and> b \<notin> set (boxes s) \<and> boxes s1 = boxes s @ [b]
     \<and> (\<forall>d. d < next_id s \<longrightarrow> model (widgets s1 d) = model (widgets s d))"
| "pushed s (UpdateBox b before after) s1 \<longleftrightarrow>
     undo_list s1 = undo_list s @ [UpdateBox b before after] \<and> next_id s \<le> next_id s1
     \<and> boxes s1 = boxes s \<and> before = model (widgets s b)
     \<and> (\<forall>d. d < next_id s \<and> d \<noteq> b \<longrightarrow> model (widgets s1 d) = model (widgets s d))"
| "pushed s (DeleteBox b idx m) s1 \<longleftrightarrow>
     undo_list s1 = undo_list s @ [DeleteBox b idx m] \<and> next_id s \<le> next_id s1
     \<and> list_index b (boxes s) = Some idx \<and> boxes s1 = remove1 b (boxes s)
     \<and> m = model (widgets s b)
     \<and> (\<forall>d. d < next_id s \<and> d \<noteq> b \<longrightarrow> model (widgets s1 d) = model (widgets s d))"
| "pushed s (ChangeFont before after) s1 \<longleftrightarrow> False"

subsection \<open>Well-formed states\<close>

text \<open>
  What every state the page view can reach satisfies: the collection has no duplicates
  and holds allocated widgets only; the boxes named by add and delete commands on the
  stacks are allocated; and the stacks fit the collection. \<open>undo_fits M cs\<close> reads the
  applied stack from its top: an add command there has its box in the set \<open>M\<close> of
  collection members, a delete command has its box outside, and the rest of the stack
  fits the set as it is after the command is undone. \<open>redo_fits\<close> is the mirror image
  for the reverted stack.
\<close>

fun cmd_allocated :: "nat \<Rightarrow> Command \<Rightarrow> bool" where
  "cmd_allocated n (AddBox b) \<longleftrightarrow> b < n"
| "cmd_allocated n (DeleteBox b idx m) \<longleftrightarrow> b < n"
| "cmd_allocated n (UpdateBox b before after) \<longleftrightarrow> True"
| "cmd_allocated n (ChangeFont before after) \<longleftrightarrow> True"

fun undo_fits :: "nat set \<Rightarrow> Command list \<Rightarrow> bool" where
  "undo_fits M [] \<longleftrightarrow> True"
| "undo_fits M (AddBox b # cs) \<longleftrightarrow> b \<in> M \<and> undo_fits (M - {b}) cs"
| "undo_fits M (DeleteBox b idx m # cs) \<longleftrightarrow> b \<notin> M \<and> undo_fits (insert b M) cs"
| "undo_fits M (UpdateBox b before after # cs) \<longleftrightarrow> undo_fits M cs"
| "undo_fits M (ChangeFont before after # cs) \<longleftrightarrow> undo_fits M cs"

fun redo_fits :: "nat set \<Rightarrow> Command list \<Rightarrow> bool" where
  "redo_fits M [] \<longleftrightarrow> True"
| "redo_fits M (AddBox b # cs) \<longleftrightarrow> b \<notin> M \<and> redo_fits (insert b M) cs"
| "redo_fits M (DeleteBox b idx m # cs) \<longleftrightarrow> b \<in> M \<and> redo_fits (M - {b}) cs"
| "redo_fits M (UpdateBox b before after # cs) \<longleftrightarrow> redo_fits M cs"
| "redo_fits M (ChangeFont before after # cs) \<longleftrightarrow> redo_fits M cs"

definition wellformed :: "PageView \<Rightarrow> bool" where
  "wellformed s \<longleftrightarrow>
     distinct (boxes s) \<and> boxes_allocated s
     \<and> list_all (cmd_allocated (next_id s)) (undo_list s)
     \<and> list_all (cmd_allocated (next_id s)) (redo_list s)
     \<and> undo_fits (set (boxes s)) (rev (undo_list s))
     \<and> redo_fits (set (boxes s)) (rev (redo_list s))"

subsection \<open>Example states\<close>

text \<open>
  A page rendered at zoom 2.0 with 800 by 1000 pixels and the text tool on; the same
  after a click at (30, 400); then with the text \<open>hi\<close> committed in that box and a second
  box, holding \<open>yo\<close>, placed by a click at (30, 500); then with a no-break space
  (U+00A0) and an em space (U+2003) typed into the first box. Texts are written by their
  code points: \<open>hi\<close> is 0x68, 0x69, \<open>yo\<close> is 0x79, 0x6F, \<open>note\<close> is 0x6E, 0x6F, 0x74,
  0x65, and the blank is 0x20.
\<close>

definition demo_page :: PageView where
  "demo_page = set_text_tool True (set_rendered_page (800, 1000) 0 2 (PageView_init 800 1000))"

definition demo_click :: PageView where
  "demo_click = run [PvPress LeftButton (30, 400) None, PvRelease LeftButton (30, 400)] demo_page"

definition demo_two :: PageView where
  "demo_two = run [Types 0 [0x68, 0x69], EditingFinished 0,
                   PvPress LeftButton (30, 500) None, PvRelease LeftButton (30, 500),
                   Types 1 [0x79, 0x6F], EditingFinished 1] demo_click"

definition demo_blank :: PageView where
  "demo_blank = user_types 0 [0xA0, 0x2003] demo_two"

text \<open>
  The 800 by 1000 page as \<^verbatim>\<open>set_rendered_page\<close> leaves a fresh page view, and events on
  it: the text tool is switched on and the page pressed at (750, 400); the button is
  released there, which places box 0; the resize handle of that box is pressed (the
  pointer at (500, 600) on the screen), and the pointer moves 100 to the left and 10 up;
  or else the left border of the box is pressed. Then a page 20 pixels high.
\<close>

definition demo_rendered :: PageView where
  "demo_rendered = set_rendered_page (800, 1000) 0 2 (PageView_init 800 1000)"

definition demo_edge_press :: "event list" where
  "demo_edge_press = [SetTextTool True, PvPress LeftButton (750, 400) None]"

definition demo_edge_click :: "event list" where
  "demo_edge_click = demo_edge_press @ [PvRelease LeftButton (750, 400)]"

definition demo_edge_handle :: "event list" where
  "demo_edge_handle = demo_edge_click @ [TbPress 0 LeftButton (45, 25) (500, 600)]"

definition demo_edge_resize :: "event list" where
  "demo_edge_resize = demo_edge_handle @ [TbMove 0 (400, 590)]"

definition demo_edge_border :: "event list" where
  "demo_edge_border = demo_edge_click @ [TbPress 0 LeftButton (3, 15) (500, 600)]"

definition demo_low_page :: PageView where
  "demo_low_page = set_text_tool True (set_rendered_page (800, 20) 0 2 (PageView_init 800 20))"

text \<open>
  A library that never raises, and one whose \<^verbatim>\<open>set_colors\<close> and \<^verbatim>\<open>set_opacity\<close> always
  raise; the two-box page with a third box holding \<open>note\<close> and a blank, a no-break
  space (U+00A0) and an ideographic space (U+3000) typed into the second box.
\<close>

definition lib_ok :: doclib where
  "lib_ok = \<lparr>open_fails = (\<lambda>p. False), load_page_fails = (\<lambda>i. False),
             add_freetext_annot_fails = (\<lambda>i r t. False), style_fails = (\<lambda>k c. False),
             saveIncr_fails = False, close_fails = False\<rparr>"

definition lib_flaky :: doclib where
  "lib_flaky = lib_ok\<lparr>style_fails := (\<lambda>k c. c = SetColors \<or> c = SetOpacity)\<rparr>"

definition demo_three :: PageView where
  "demo_three = run [PvPress LeftButton (30, 600) None, PvRelease LeftButton (30, 600),
                     Types 2 [0x6E, 0x6F, 0x74, 0x65], EditingFinished 2,
                     Types 1 [0x20, 0xA0, 0x3000]] demo_two"

text \<open>
  The two-box page after a blank was typed behind the text of the selected second box
  and editing ended: the stripped text equals the committed text, so nothing is
  committed and the line edit keeps the blank.
\<close>

definition demo_trailing :: PageView where
  "demo_trailing = run [Types 1 [0x79, 0x6F, 0x20], EditingFinished 1] demo_two"

text \<open>
  Edit operations on the two-box page: a third box is placed and \<open>note\<close> committed in
  it, the first box is dragged by its border, the second box is deleted. Then two
  sequences that contain a restyle, and the one-box page with \<open>hi\<close> committed.
\<close>

definition demo_edits :: "event list" where
  "demo_edits = [PvPress LeftButton (30, 600) None, PvRelease LeftButton (30, 600),
                 Types 2 [0x6E, 0x6F, 0x74, 0x65], EditingFinished 2,
                 TbPress 0 LeftButton (3, 15) (500, 600), TbMove 0 (510, 640),
                 TbRelease 0 LeftButton,
                 RequestDelete 1]"

definition demo_restyle_then_move :: "event list" where
  "demo_restyle_then_move = [SetFontSettings ''Courier New'' 20,
                             TbPress 0 LeftButton (3, 15) (500, 600), TbMove 0 (510, 640),
                             TbRelease 0 LeftButton]"

definition demo_one :: PageView where
  "demo_one = run [Types 0 [0x68, 0x69], EditingFinished 0] demo_click"

definition demo_restyle_then_create :: "event list" where
  "demo_restyle_then_create = [SetFontSettings ''Courier New'' 20,
                               PvPress LeftButton (30, 500) None,
                               PvRelease LeftButton (30, 500)]"

section \<open>Properties\<close>

subsection \<open>Unfolding the model on concrete states\<close>

lemmas geom_defs = QRect_xywh_def QRect_points_def QRect_null_def r_left_def r_top_def r_right_def
  r_bottom_def r_x_def r_y_def r_width_def r_height_def normalized_def moved_to_def
  click_rect_def drag_rect_def create_box_rect_def resize_geom_def move_pos_def MIN_W_def MIN_H_def
  BORDER_GRAB_PX_def r_contains_def handle_geometry_def is_on_border_def

lemmas op_defs = demo_page_def PageView_init_def set_rendered_page_def set_text_tool_def
  pv_mousePressEvent_def pv_mouseReleaseEvent_def create_box_def place_box_def push_and_do_def
  update_widget_def setVisible_def new_widget_def set_model_def on_selected_def
  on_change_commit_def request_delete_def set_font_settings_def hide_and_deselect_def
  remove_if_in_def list_insert_def undo_def redo_def user_types_def on_editing_finished_def
  commit_geom_change_def tb_mousePressEvent_def tb_mouseMoveEvent_def tb_mouseReleaseEvent_def
  spawn_default_box_left_middle_def add_box_at_click_def Let_def

lemma demo_two_boxes: "boxes demo_two = [0, 1]"
  by (simp add: demo_two_def demo_click_def op_defs geom_defs strip_def py_isspace_def)

subsection \<open>Python lists\<close>

lemma list_index_Some:
  "x \<in> set xs \<Longrightarrow> \<exists>i. list_index x xs = Some i"
  by (induction xs) auto

lemma list_index_props:
  "list_index x xs = Some i \<Longrightarrow>
     i < length xs \<and> xs ! i = x \<and> remove1 x xs = take i xs @ drop (Suc i) xs"
  by (induction xs arbitrary: i) (auto split: if_splits)

lemma list_index_distinct:
  "distinct xs \<Longrightarrow> i < length xs \<Longrightarrow> list_index (xs ! i) xs = Some i"
proof (induction xs arbitrary: i)
  case Nil
  then show ?case by simp
next
  case (Cons y ys)
  then show ?case by (cases i) auto
qed

text \<open>Inserting at the recorded index what \<^verbatim>\<open>remove\<close> took out gives the list back.\<close>

lemma list_insert_remove1:
  assumes "list_index x xs = Some i"
  shows "list_insert i x (remove1 x xs) = xs"
proof -
  from list_index_props[OF assms] have i: "i < length xs" and x: "xs ! i = x"
    and r: "remove1 x xs = take i xs @ drop (Suc i) xs" by auto
  have "list_insert i x (remove1 x xs) = take i xs @ x # drop (Suc i) xs"
    using i by (simp add: r list_insert_def min_def)
  also have "\<dots> = xs" using i x id_take_nth_drop[of i xs] by simp
  finally show ?thesis .
qed

subsection \<open>Stripping\<close>

text \<open>\<^verbatim>\<open>strip()\<close> returns the empty text exactly for a text of whitespace code points.\<close>

lemma strip_Nil_iff: "strip s = [] \<longleftrightarrow> list_all py_isspace s"
proof -
  have "dropWhile py_isspace (rev (dropWhile py_isspace s)) = []
          \<longleftrightarrow> dropWhile py_isspace s = []"
  proof (cases "dropWhile py_isspace s")
    case Nil
    show ?thesis unfolding Nil by simp
  next
    case (Cons x xs)
    then have "\<not> py_isspace x" using hd_dropWhile[of py_isspace s] by simp
    then show ?thesis unfolding Cons by (simp add: dropWhile_append3)
  qed
  then have "strip s = [] \<longleftrightarrow> dropWhile py_isspace s = []"
    by (simp only: strip_def rev_is_Nil_conv)
  also have "\<dots> \<longleftrightarrow> list_all py_isspace s"
    by (simp add: dropWhile_eq_Nil_conv list_all_iff)
  finally show ?thesis .
qed

lemma strip_unicode_blanks:
  "strip [0x20, 0x09, 0x0A, 0x85, 0xA0, 0x1680, 0x2003, 0x2028, 0x202F, 0x205F, 0x3000] = []"
  "strip [0xA0, 0x68, 0x20, 0x69, 0x2003] = [0x68, 0x20, 0x69]"
  "strip [0x200B] = [0x200B]"
  by (simp_all add: strip_def py_isspace_def)

subsection \<open>Delete and its undo\<close>

lemma boxes_hide_and_deselect: "boxes (hide_and_deselect b s) = remove1 b (boxes s)"
  by (simp add: hide_and_deselect_def Let_def update_widget_def remove_if_in_def remove1_idem)

lemma widgets_hide_and_deselect:
  "widgets (hide_and_deselect b s) = (widgets s)(b := setVisible False (widgets s b))"
  by (simp add: hide_and_deselect_def Let_def update_widget_def)

lemma request_delete_in:
  assumes "list_index b (boxes s) = Some idx"
  shows "request_delete b s =
           Returned ((hide_and_deselect b s)
                      \<lparr>undo_list := undo_list s @ [DeleteBox b idx (model (widgets s b))],
                       redo_list := []\<rparr>)"
proof -
  have "b \<in> set (boxes s)" using list_index_props[OF assms] by (metis nth_mem)
  then show ?thesis using assms
    by (simp add: request_delete_def push_and_do_def hide_and_deselect_def Let_def
        update_widget_def)
qed

lemma request_delete_undo:
  assumes "list_index b (boxes s) = Some idx"
  shows "\<exists>s1 s2. request_delete b s = Returned s1 \<and> undo s1 = Returned s2
           \<and> undo_list s1 = undo_list s @ [DeleteBox b idx (model (widgets s b))]
           \<and> boxes s1 = remove1 b (boxes s)
           \<and> boxes s2 = boxes s \<and> undo_list s2 = undo_list s
           \<and> model (widgets s2 b) = model (widgets s b)
           \<and> edit_text (widgets s2 b) = box_text (model (widgets s b))
           \<and> (\<forall>c. c \<noteq> b \<longrightarrow> widgets s2 c = widgets s c)"
  using assms list_insert_remove1[OF assms]
  by (simp add: request_delete_in undo_def boxes_hide_and_deselect widgets_hide_and_deselect
      update_widget_def set_model_def setVisible_def)

text \<open>
  Claim C10. A delete request for a box that is not in the collection returns the state
  unchanged: no command is pushed, and the collection, the selection and both stacks
  stay as they are. In a collection without duplicates (every reachable collection is one,
  see \<open>reachable_distinct_allocated\<close> below) a second request for the same box is such a
  request, so it changes nothing after the first.
\<close>

theorem C10_delete_absent_is_noop:
  "(b \<notin> set (boxes s) \<longrightarrow> request_delete b s = Returned s) \<and>
   (distinct (boxes s) \<longrightarrow>
      request_delete b (state_of (request_delete b s)) = Returned (state_of (request_delete b s)))"
proof (intro conjI impI)
  assume "b \<notin> set (boxes s)"
  then show "request_delete b s = Returned s" by (simp add: request_delete_def)
next
  assume d: "distinct (boxes s)"
  show "request_delete b (state_of (request_delete b s)) = Returned (state_of (request_delete b s))"
  proof (cases "b \<in> set (boxes s)")
    case False
    then show ?thesis by (simp add: request_delete_def)
  next
    case True
    then obtain idx where i: "list_index b (boxes s) = Some idx"
      using list_index_Some by fastforce
    have "b \<notin> set (boxes (state_of (request_delete b s)))"
      using d by (simp add: request_delete_in[OF i] boxes_hide_and_deselect)
    then show ?thesis by (simp add: request_delete_def)
  qed
qed

theorem C10_delete_absent_is_noop_witness:
  "7 \<notin> set (boxes demo_two) \<and> request_delete 7 demo_two = Returned demo_two \<and>
   distinct (boxes demo_two) \<and> 0 \<in> set (boxes demo_two) \<and>
   boxes (state_of (request_delete 0 demo_two)) = [1] \<and>
   request_delete 0 (state_of (request_delete 0 demo_two))
     = Returned (state_of (request_delete 0 demo_two))"
  using C10_delete_absent_is_noop[of 7 demo_two] C10_delete_absent_is_noop[of 0 demo_two]
  by (simp add: demo_two_boxes request_delete_def push_and_do_def boxes_hide_and_deselect)

text \<open>
  Claim C7. For the box at index \<open>i\<close> of a collection without duplicates (as every
  reachable collection is, see \<open>reachable_distinct_allocated\<close> below), the delete
  request pushes one command that records the box, the index \<open>i\<close> and the box's model;
  the box leaves the collection; \<^verbatim>\<open>undo()\<close> then puts it back by \<^verbatim>\<open>insert\<close> at index
  \<open>i\<close>, so the collection is the list it was, in the same order, and the box has the
  model it had.
\<close>

theorem C7_delete_undo_keeps_order:
  assumes "i < length (boxes s)" and "distinct (boxes s)"
  shows "let b = boxes s ! i;
             s1 = state_of (request_delete b s);
             s2 = state_of (undo s1)
         in returned (request_delete b s)
            \<and> undo_list s1 = undo_list s @ [DeleteBox b i (model (widgets s b))]
            \<and> boxes s1 = take i (boxes s) @ drop (Suc i) (boxes s)
            \<and> returned (undo s1)
            \<and> boxes s2 = list_insert i b (boxes s1)
            \<and> boxes s2 = boxes s
            \<and> model (widgets s2 b) = model (widgets s b)"
proof -
  let ?b = "boxes s ! i"
  have idx: "list_index ?b (boxes s) = Some i" using assms by (simp add: list_index_distinct)
  from request_delete_undo[OF idx] obtain s1 s2 where
    r: "request_delete ?b s = Returned s1" "undo s1 = Returned s2"
       "undo_list s1 = undo_list s @ [DeleteBox ?b i (model (widgets s ?b))]"
       "boxes s1 = remove1 ?b (boxes s)" "boxes s2 = boxes s"
       "model (widgets s2 ?b) = model (widgets s ?b)"
    by blast
  have rm: "remove1 ?b (boxes s) = take i (boxes s) @ drop (Suc i) (boxes s)"
    using list_index_props[OF idx] by simp
  have "list_insert i ?b (boxes s1) = boxes s"
    using list_insert_remove1[OF idx] r(4) by simp
  with r rm show ?thesis by (simp add: Let_def)
qed

theorem C7_delete_undo_keeps_order_witness:
  "(0::nat) < length (boxes demo_two) \<and> distinct (boxes demo_two) \<and> boxes demo_two = [0, 1] \<and>
   returned (request_delete 0 demo_two) \<and>
   undo_list (state_of (request_delete 0 demo_two))
     = undo_list demo_two @ [DeleteBox 0 0 (model (widgets demo_two 0))] \<and>
   boxes (state_of (request_delete 0 demo_two)) = [1] \<and>
   returned (undo (state_of (request_delete 0 demo_two))) \<and>
   boxes (state_of (undo (state_of (request_delete 0 demo_two)))) = [0, 1]"
  using C7_delete_undo_keeps_order[of 0 demo_two]
  by (simp add: demo_two_boxes Let_def list_insert_def)

text \<open>
  Claim C4. For a box of a collection without duplicates (as every reachable collection
  is, see \<open>reachable_distinct_allocated\<close> below) whose line edit holds a text that
  \<^verbatim>\<open>strip()\<close> empties, that is, nothing but whitespace code points, ASCII or not (see
  \<open>strip_Nil_iff\<close>), the end of editing pushes a delete command (no update), after which
  the box is not in the collection; \<^verbatim>\<open>undo()\<close> then returns it to the collection with the
  model, hence the text, it had, and shows that text in the line edit. The witness is a
  box holding \<open>hi\<close> into which a no-break space and an em space were typed.
\<close>

theorem C4_empty_commit_deletes:
  assumes "b \<in> set (boxes s)" and "distinct (boxes s)"
    and "strip (edit_text (widgets s b)) = []"
  shows "let s1 = state_of (on_editing_finished b s);
             s2 = state_of (undo s1)
         in returned (on_editing_finished b s)
            \<and> b \<notin> set (boxes s1)
            \<and> (\<exists>idx. undo_list s1 = undo_list s @ [DeleteBox b idx (model (widgets s b))])
            \<and> returned (undo s1)
            \<and> boxes s2 = boxes s
            \<and> model (widgets s2 b) = model (widgets s b)
            \<and> edit_text (widgets s2 b) = box_text (model (widgets s b))"
proof -
  obtain idx where idx: "list_index b (boxes s) = Some idx"
    using assms(1) list_index_Some by fastforce
  have e: "on_editing_finished b s = request_delete b s"
    using assms(3) by (simp add: on_editing_finished_def Let_def)
  from request_delete_undo[OF idx] obtain s1 s2 where
    r: "request_delete b s = Returned s1" "undo s1 = Returned s2"
       "undo_list s1 = undo_list s @ [DeleteBox b idx (model (widgets s b))]"
       "boxes s1 = remove1 b (boxes s)" "boxes s2 = boxes s"
       "model (widgets s2 b) = model (widgets s b)"
       "edit_text (widgets s2 b) = box_text (model (widgets s b))"
    by blast
  have "b \<notin> set (boxes s1)" using r(4) assms(2) by simp
  with r e show ?thesis by (simp add: Let_def)
qed

theorem C4_empty_commit_deletes_witness:
  "0 \<in> set (boxes demo_blank) \<and> distinct (boxes demo_blank)
   \<and> edit_text (widgets demo_blank 0) = [0xA0, 0x2003]
   \<and> strip (edit_text (widgets demo_blank 0)) = []
   \<and> box_text (model (widgets demo_blank 0)) = [0x68, 0x69]
   \<and> returned (on_editing_finished 0 demo_blank)
   \<and> boxes (state_of (on_editing_finished 0 demo_blank)) = [1]
   \<and> returned (undo (state_of (on_editing_finished 0 demo_blank)))
   \<and> boxes (state_of (undo (state_of (on_editing_finished 0 demo_blank)))) = [0, 1]
   \<and> box_text (model (widgets (state_of (undo (state_of (on_editing_finished 0 demo_blank)))) 0))
       = [0x68, 0x69]
   \<and> edit_text (widgets (state_of (undo (state_of (on_editing_finished 0 demo_blank)))) 0)
       = [0x68, 0x69]"
proof -
  have b: "boxes demo_blank = [0, 1]"
    by (simp add: demo_blank_def user_types_def update_widget_def demo_two_boxes)
  have t: "edit_text (widgets demo_blank 0) = [0xA0, 0x2003]"
    by (simp add: demo_blank_def user_types_def update_widget_def)
  have st: "strip [0xA0, 0x2003] = []" by (simp add: strip_def py_isspace_def)
  have m: "box_text (model (widgets demo_blank 0)) = [0x68, 0x69]"
    by (simp add: demo_blank_def demo_two_def demo_click_def op_defs geom_defs strip_def
        py_isspace_def)
  have bx: "boxes (state_of (on_editing_finished 0 demo_blank)) = [1]"
    by (simp add: on_editing_finished_def t st request_delete_def b push_and_do_def
        boxes_hide_and_deselect)
  show ?thesis
    using C4_empty_commit_deletes[of 0 demo_blank] by (simp add: b t st m bx Let_def)
qed

subsection \<open>The click scenario\<close>

text \<open>
  Claim C3. On the page rendered at zoom 2.0 with 800 by 1000 pixels, a click at
  (30, 400), press and release at the same point with the text tool on, as well as
  \<^verbatim>\<open>add_box_at_click\<close> of \<^verbatim>\<open>p4.py\<close>, places a box with the pixel rectangle
  \<open>(x, y, width, height) = (30, 385, 360, 30)\<close>. For that rectangle \<^verbatim>\<open>right()\<close> is 389 and
  \<^verbatim>\<open>bottom()\<close> is 414, so \<^verbatim>\<open>px_rect_to_pdf_rect\<close> returns (15, 192.5, 194.5, 207) and
  not the rectangle (15, 192.5, 195, 207.5) of the scenario.
\<close>

theorem C3_click_create_scenario:
  "zoom demo_page = 2 \<and> image_w_px demo_page = 800 \<and> image_h_px demo_page = 1000
   \<and> boxes demo_click = [0]
   \<and> rect_px (model (widgets demo_click 0)) = QRect_xywh 30 385 360 30
   \<and> rect_px (model (widgets (state_of (add_box_at_click (30, 400) demo_page)) 0))
       = QRect_xywh 30 385 360 30
   \<and> r_right (QRect_xywh 30 385 360 30) = 389 \<and> r_bottom (QRect_xywh 30 385 360 30) = 414
   \<and> px_rect_to_pdf_rect demo_click (QRect_xywh 30 385 360 30) = Inr (15, 192.5, 194.5, 207)
   \<and> px_rect_to_pdf_rect demo_click (QRect_xywh 30 385 360 30) \<noteq> Inr (15, 192.5, 195, 207.5)"
  by (simp add: demo_click_def op_defs geom_defs px_rect_to_pdf_rect_def)

subsection \<open>Font mapping\<close>

lemma py_lower_char_idem: "py_lower_char (py_lower_char c) = py_lower_char c"
  by (cases c) (auto simp: Let_def)

lemma lower_idem: "lower (lower s) = lower s"
  by (simp add: lower_def py_lower_char_idem)

lemma sublist_through: "sublist k k' \<Longrightarrow> sublist k' s \<Longrightarrow> sublist k s"
  by (rule sublist_order.order.trans)

lemma mono_in_longer:
  "sublist ''mono'' ''dejavu sans mono''" "sublist ''mono'' ''liberation mono''"
  "sublist ''serif'' ''dejavu serif''" "sublist ''serif'' ''liberation serif''"
  by (simp_all add: sublist_code)

text \<open>The two longer keywords of each list contain a shorter one, so they add nothing.\<close>

lemma any_in_mono:
  "any_in [''courier'', ''consolas'', ''mono'', ''dejavu sans mono'', ''liberation mono''] fam
     \<longleftrightarrow> any_in [''courier'', ''consolas'', ''mono''] fam"
  unfolding any_in_def list_ex_Cons_iff list_ex_Nil_iff
  using sublist_through[OF mono_in_longer(1), of fam] sublist_through[OF mono_in_longer(2), of fam]
  by blast

lemma any_in_serif:
  "any_in [''times'', ''serif'', ''dejavu serif'', ''liberation serif''] fam
     \<longleftrightarrow> any_in [''times'', ''serif''] fam"
  unfolding any_in_def list_ex_Cons_iff list_ex_Nil_iff
  using sublist_through[OF mono_in_longer(3), of fam] sublist_through[OF mono_in_longer(4), of fam]
  by blast

text \<open>
  Claim C6. The identifier returned for a family name is the one the specification's
  rule gives: monospace when the lowercased name contains \<open>courier\<close>, \<open>consolas\<close> or
  \<open>mono\<close>, else serif when it contains \<open>times\<close> or \<open>serif\<close>, else sans-serif. It is a
  function of the lowercased name alone, and it sends \<open>Courier New\<close> to \<open>cour\<close>,
  \<open>Times New Roman\<close> to \<open>tiro\<close> and \<open>Arial\<close> to \<open>helv\<close>.
\<close>

theorem C6_font_mapping:
  "font_class_of (qfont_to_pdf_basefont fam) = Some (spec_font_class fam)
   \<and> qfont_to_pdf_basefont fam = qfont_to_pdf_basefont (lower fam)
   \<and> qfont_to_pdf_basefont ''Courier New'' = ''cour''
   \<and> qfont_to_pdf_basefont ''Times New Roman'' = ''tiro''
   \<and> qfont_to_pdf_basefont ''Arial'' = ''helv''"
proof (intro conjI)
  show "font_class_of (qfont_to_pdf_basefont fam) = Some (spec_font_class fam)"
    by (simp add: qfont_to_pdf_basefont_def spec_font_class_def font_class_of_def Let_def
        any_in_mono any_in_serif)
  show "qfont_to_pdf_basefont fam = qfont_to_pdf_basefont (lower fam)"
    by (simp add: qfont_to_pdf_basefont_def lower_idem)
  show "qfont_to_pdf_basefont ''Courier New'' = ''cour''"
    by (simp add: qfont_to_pdf_basefont_def lower_def any_in_def sublist_code)
  show "qfont_to_pdf_basefont ''Times New Roman'' = ''tiro''"
    by (simp add: qfont_to_pdf_basefont_def lower_def any_in_def sublist_code)
  show "qfont_to_pdf_basefont ''Arial'' = ''helv''"
    by (simp add: qfont_to_pdf_basefont_def lower_def any_in_def sublist_code)
qed

theorem C6_font_mapping_witness:
  "font_class_of (qfont_to_pdf_basefont ''DejaVu Sans MONO'') = Some Monospace
   \<and> spec_font_class ''DejaVu Sans MONO'' = Monospace
   \<and> qfont_to_pdf_basefont ''DejaVu Sans MONO'' = qfont_to_pdf_basefont ''dejavu sans mono''
   \<and> font_class_of (qfont_to_pdf_basefont ''Monotype Times'') = Some Monospace
   \<and> font_class_of (qfont_to_pdf_basefont ''PT Serif'') = Some Serif
   \<and> font_class_of (qfont_to_pdf_basefont ''Helvetica'') = Some SansSerif"
proof -
  have a: "spec_font_class ''DejaVu Sans MONO'' = Monospace"
    by (simp add: spec_font_class_def lower_def any_in_def sublist_code)
  have l: "lower ''DejaVu Sans MONO'' = ''dejavu sans mono''" by (simp add: lower_def)
  have b: "spec_font_class ''Monotype Times'' = Monospace"
    by (simp add: spec_font_class_def lower_def any_in_def sublist_code)
  have c: "spec_font_class ''PT Serif'' = Serif"
    by (simp add: spec_font_class_def lower_def any_in_def sublist_code)
  have d: "spec_font_class ''Helvetica'' = SansSerif"
    by (simp add: spec_font_class_def lower_def any_in_def sublist_code)
  show ?thesis
    using C6_font_mapping[of "''DejaVu Sans MONO''"]
      C6_font_mapping[of "''Monotype Times''", THEN conjunct1]
      C6_font_mapping[of "''PT Serif''", THEN conjunct1]
      C6_font_mapping[of "''Helvetica''", THEN conjunct1]
    unfolding a b c d l by blast
qed

subsection \<open>Geometry clamp\<close>

text \<open>
  The four placements one by one: what the click branch and the drag branch of
  \<^verbatim>\<open>_create_box\<close> return, and what a step of a resize and of a move gesture makes of a
  rectangle that lies within the page.
\<close>

lemma QRect_xywh_sel [simp]:
  "r_x (QRect_xywh x y w h) = x" "r_y (QRect_xywh x y w h) = y"
  "r_width (QRect_xywh x y w h) = w" "r_height (QRect_xywh x y w h) = h"
  by (simp_all add: QRect_xywh_def r_x_def r_y_def r_width_def r_height_def)

lemma click_rect_ok:
  assumes "30 \<le> H" and "0 \<le> fst p" and "click_rect W H 360 30 p = Some c"
  shows "in_page W H c \<and> min_unless_edge W H c \<and> 1 \<le> r_width c \<and> 1 \<le> r_height c"
  using assms
  by (auto simp: click_rect_def Let_def in_page_def min_unless_edge_def split: if_splits)

lemma drag_rect_ok:
  assumes "1 \<le> W" and "1 \<le> H"
  shows "in_page W H (drag_rect W H r) \<and> min_unless_edge W H (drag_rect W H r)
         \<and> 1 \<le> r_width (drag_rect W H r) \<and> 1 \<le> r_height (drag_rect W H r)"
proof -
  define x0 where "x0 = max 0 (min (r_left r) (W - 1))"
  define y0 where "y0 = max 0 (min (r_top r) (H - 1))"
  define x1 where "x1 = max 0 (min (r_right r) (W - 1))"
  define y1 where "y1 = max 0 (min (r_bottom r) (H - 1))"
  define r' where "r' = normalized (QRect_points (x0, y0) (x1, y1))"
  have b: "0 \<le> x0" "x0 \<le> W - 1" "0 \<le> x1" "x1 \<le> W - 1" "0 \<le> y0" "y0 \<le> H - 1" "0 \<le> y1" "y1 \<le> H - 1"
    using assms by (auto simp: x0_def x1_def y0_def y1_def)
  have x: "0 \<le> r_x r'" "r_x r' \<le> W - 1"
    using b by (auto simp: r'_def normalized_def QRect_points_def r_x_def Let_def)
  have y: "0 \<le> r_y r'" "r_y r' \<le> H - 1"
    using b by (auto simp: r'_def normalized_def QRect_points_def r_y_def Let_def)
  have d: "drag_rect W H r = QRect_xywh (r_x r') (r_y r')
             (min (max MIN_W (r_width r')) (W - r_x r')) (min (max MIN_H (r_height r')) (H - r_y r'))"
    by (simp add: drag_rect_def Let_def x0_def y0_def x1_def y1_def r'_def)
  show ?thesis
    unfolding d in_page_def min_unless_edge_def QRect_xywh_sel MIN_W_def MIN_H_def
    using x y by auto
qed

lemma resize_geom_ok:
  assumes "in_page pw ph sg"
  shows "in_page pw ph (resize_geom sg delta pw ph) \<and> min_unless_edge pw ph (resize_geom sg delta pw ph)"
  using assms by (auto simp: resize_geom_def Let_def in_page_def min_unless_edge_def MIN_W_def MIN_H_def)

lemma move_pos_ok:
  assumes "in_page pw ph g"
  shows "in_page pw ph (moved_to (move_pos sp delta (r_width g) (r_height g) pw ph) g)
         \<and> r_width (moved_to (move_pos sp delta (r_width g) (r_height g) pw ph) g) = r_width g
         \<and> r_height (moved_to (move_pos sp delta (r_width g) (r_height g) pw ph) g) = r_height g"
  using assms by (auto simp: move_pos_def Let_def moved_to_def in_page_def)

subsection \<open>Every rectangle stays within the page\<close>

text \<open>
  \<open>page_inv W H\<close> holds after the rendering and is kept by every event of the page:
  first by the commands, run, undone and redone, then by each handler.
\<close>

lemma in_page_null: "0 \<le> W \<Longrightarrow> 0 \<le> H \<Longrightarrow> in_page W H QRect_null"
  by (simp add: in_page_def QRect_null_def r_x_def r_y_def r_width_def r_height_def)

lemma widget_in_page_set_model:
  "widget_in_page W H w \<Longrightarrow> in_page W H (rect_px m) \<Longrightarrow> widget_in_page W H (set_model m w)"
  by (simp add: widget_in_page_def set_model_def)

lemma widget_in_page_setVisible [simp]:
  "widget_in_page W H (setVisible v w) = widget_in_page W H w"
  by (simp add: widget_in_page_def setVisible_def)

lemma widget_in_page_new:
  "0 \<le> W \<Longrightarrow> 0 \<le> H \<Longrightarrow> in_page W H (rect_px m) \<Longrightarrow> widget_in_page W H (new_widget m)"
  by (simp add: widget_in_page_def new_widget_def in_page_null)

text \<open>A state that differs from one within the page in other fields only is within the page.\<close>

lemma page_inv_cong:
  assumes "page_inv W H s"
    and "image_w_px t = image_w_px s" and "image_h_px t = image_h_px s"
    and "pv_width t = pv_width s" and "pv_height t = pv_height s"
    and "default_click_w t = default_click_w s" and "default_click_h t = default_click_h s"
    and "widgets t = widgets s" and "undo_list t = undo_list s" and "redo_list t = redo_list s"
  shows "page_inv W H t"
  using assms by (simp add: page_inv_def)

lemma page_inv_update_widget:
  assumes "page_inv W H s" and "widget_in_page W H (f (widgets s b))"
  shows "page_inv W H (update_widget b f s)"
  using assms by (simp add: page_inv_def update_widget_def)

lemma page_inv_widget: "page_inv W H s \<Longrightarrow> widget_in_page W H (widgets s b)"
  by (simp add: page_inv_def)

lemma set_visibility_in_page:
  "(\<forall>b. widget_in_page W H (ws b)) \<Longrightarrow> widget_in_page W H (set_visibility pidx bs ws b)"
  by (induction bs arbitrary: ws) auto

lemma page_inv_hide_and_deselect:
  assumes "page_inv W H s"
  shows "page_inv W H (hide_and_deselect b s)"
  using assms
  by (auto simp: hide_and_deselect_def Let_def update_widget_def page_inv_def)

lemma cmd_do_page_inv:
  assumes "page_inv W H s" and "cmd_in_page W H c"
  shows "page_inv W H (state_of (cmd_do c s))"
proof (cases c)
  case (AddBox b)
  have "page_inv W H (update_widget b (setVisible True) (s\<lparr>boxes := boxes s @ [b]\<rparr>))"
    using assms(1) by (simp add: update_widget_def page_inv_def)
  then show ?thesis using AddBox by (simp add: page_inv_def)
next
  case (UpdateBox b before after)
  then show ?thesis using assms
    by (simp add: page_inv_update_widget widget_in_page_set_model page_inv_widget)
next
  case (ChangeFont before after)
  then show ?thesis using assms
    by (auto split: option.splits
        simp: page_inv_update_widget widget_in_page_set_model page_inv_widget)
next
  case (DeleteBox b idx m)
  then show ?thesis using assms by (simp add: page_inv_hide_and_deselect)
qed

lemma cmd_undo_page_inv:
  assumes "page_inv W H s" and "cmd_in_page W H c"
  shows "page_inv W H (state_of (cmd_undo c s))"
proof (cases c)
  case (AddBox b)
  then show ?thesis using assms by (simp add: page_inv_hide_and_deselect)
next
  case (UpdateBox b before after)
  then show ?thesis using assms
    by (simp add: page_inv_update_widget widget_in_page_set_model page_inv_widget)
next
  case (ChangeFont before after)
  then show ?thesis using assms
    by (auto split: option.splits
        simp: page_inv_update_widget widget_in_page_set_model page_inv_widget)
next
  case (DeleteBox b idx m)
  have "widget_in_page W H (setVisible True (set_model m (widgets s b)))"
    using assms DeleteBox by (simp add: widget_in_page_set_model page_inv_widget)
  then show ?thesis using assms DeleteBox
    by (simp add: update_widget_def page_inv_def)
qed

lemma cmd_do_lists:
  "undo_list (state_of (cmd_do c s)) = undo_list s \<and> redo_list (state_of (cmd_do c s)) = redo_list s"
  by (cases c) (auto simp: update_widget_def hide_and_deselect_def Let_def split: option.splits)

lemma cmd_undo_lists:
  "undo_list (state_of (cmd_undo c s)) = undo_list s
   \<and> redo_list (state_of (cmd_undo c s)) = redo_list s"
  by (cases c) (auto simp: update_widget_def hide_and_deselect_def Let_def split: option.splits)

lemma page_inv_lists:
  assumes "page_inv W H s" and "list_all (cmd_in_page W H) us" and "list_all (cmd_in_page W H) rs"
  shows "page_inv W H (s\<lparr>undo_list := us, redo_list := rs\<rparr>)"
  using assms by (simp add: page_inv_def)

lemma push_and_do_page_inv:
  assumes "page_inv W H s" and "cmd_in_page W H c"
  shows "page_inv W H (state_of (push_and_do c s))"
proof (cases "cmd_do c s")
  case (Raised e s1)
  then show ?thesis using cmd_do_page_inv[OF assms] by (simp add: push_and_do_def)
next
  case (Returned s1)
  have i: "page_inv W H s1" using cmd_do_page_inv[OF assms] Returned by simp
  have u: "undo_list s1 = undo_list s" using cmd_do_lists[of c s] Returned by simp
  have "list_all (cmd_in_page W H) (undo_list s1 @ [c])"
    using assms u by (simp add: page_inv_def)
  then show ?thesis using Returned page_inv_lists[OF i, of "undo_list s1 @ [c]" "[]"]
    by (simp add: push_and_do_def)
qed

lemma undo_page_inv:
  assumes "page_inv W H s"
  shows "page_inv W H (state_of (undo s))"
proof (cases "undo_list s = []")
  case True
  then show ?thesis using assms by (simp add: undo_def)
next
  case False
  then obtain us c where u: "undo_list s = us @ [c]" by (metis rev_exhaust)
  let ?s1 = "s\<lparr>undo_list := us\<rparr>"
  have c: "cmd_in_page W H c" and us: "list_all (cmd_in_page W H) us"
    using assms u by (auto simp: page_inv_def)
  have i1: "page_inv W H ?s1" using assms us by (simp add: page_inv_def)
  have i2: "page_inv W H (state_of (cmd_undo c ?s1))" by (rule cmd_undo_page_inv[OF i1 c])
  show ?thesis
  proof (cases "cmd_undo c ?s1")
    case (Raised e s2)
    then show ?thesis using i2 u by (simp add: undo_def)
  next
    case (Returned s2)
    have "redo_list s2 = redo_list s" using cmd_undo_lists[of c ?s1] Returned by simp
    then have "list_all (cmd_in_page W H) (redo_list s2 @ [c])"
      using assms c by (simp add: page_inv_def)
    then have "page_inv W H (s2\<lparr>redo_list := redo_list s2 @ [c]\<rparr>)"
      using i2 Returned by (simp add: page_inv_def)
    then show ?thesis using Returned u by (simp add: undo_def)
  qed
qed

lemma redo_page_inv:
  assumes "page_inv W H s"
  shows "page_inv W H (state_of (redo s))"
proof (cases "redo_list s = []")
  case True
  then show ?thesis using assms by (simp add: redo_def)
next
  case False
  then obtain rs c where u: "redo_list s = rs @ [c]" by (metis rev_exhaust)
  let ?s1 = "s\<lparr>redo_list := rs\<rparr>"
  have c: "cmd_in_page W H c" and rs: "list_all (cmd_in_page W H) rs"
    using assms u by (auto simp: page_inv_def)
  have i1: "page_inv W H ?s1" using assms rs by (simp add: page_inv_def)
  have i2: "page_inv W H (state_of (cmd_do c ?s1))" by (rule cmd_do_page_inv[OF i1 c])
  show ?thesis
  proof (cases "cmd_do c ?s1")
    case (Raised e s2)
    then show ?thesis using i2 u by (simp add: redo_def)
  next
    case (Returned s2)
    have "undo_list s2 = undo_list s" using cmd_do_lists[of c ?s1] Returned by simp
    then have "list_all (cmd_in_page W H) (undo_list s2 @ [c])"
      using assms c by (simp add: page_inv_def)
    then have "page_inv W H (s2\<lparr>undo_list := undo_list s2 @ [c]\<rparr>)"
      using i2 Returned by (simp add: page_inv_def)
    then show ?thesis using Returned u by (simp add: redo_def)
  qed
qed

lemma place_box_result:
  "returned (place_box r s) \<and> boxes (state_of (place_box r s)) = boxes s @ [next_id s]
   \<and> rect_px (model (widgets (state_of (place_box r s)) (next_id s))) = r
   \<and> undo_list (state_of (place_box r s)) = undo_list s @ [AddBox (next_id s)]"
  by (simp add: place_box_def push_and_do_def update_widget_def setVisible_def new_widget_def Let_def)

lemma place_box_page_inv:
  assumes "page_inv W H s" and "in_page W H r" and "0 \<le> W" and "0 \<le> H"
  shows "page_inv W H (state_of (place_box r s))"
proof -
  let ?m = "\<lparr>page_index = pv_page_index s, rect_px = r, box_text = [],
             qfont = current_qfont s, fontsize_pt = current_fontsize s\<rparr>"
  let ?s1 = "s\<lparr>widgets := (widgets s)(next_id s := setVisible True (new_widget ?m)),
               next_id := Suc (next_id s)\<rparr>"
  have "widget_in_page W H (new_widget ?m)" using assms by (simp add: widget_in_page_new)
  then have "page_inv W H ?s1" using assms(1) by (simp add: page_inv_def)
  then have "page_inv W H (state_of (push_and_do (AddBox (next_id s)) ?s1))"
    by (rule push_and_do_page_inv) simp
  then show ?thesis by (simp add: place_box_def Let_def)
qed

lemma create_box_rect_ok:
  assumes "1 \<le> W" and "30 \<le> H"
    and "r_width (normalized rect) < 40 \<and> r_height (normalized rect) < 20
           \<longrightarrow> 0 \<le> r_x (normalized rect)"
    and "create_box_rect W H 360 30 rect True = Some c"
  shows "in_page W H c \<and> min_unless_edge W H c \<and> 1 \<le> r_width c \<and> 1 \<le> r_height c"
proof (cases "r_width (normalized rect) < 40 \<and> r_height (normalized rect) < 20")
  case True
  then have "click_rect W H 360 30 (r_x (normalized rect), r_y (normalized rect)) = Some c"
    using assms(4) by (simp add: create_box_rect_def Let_def)
  with click_rect_ok[OF assms(2), of "(r_x (normalized rect), r_y (normalized rect))" W c]
    assms(3) True show ?thesis by simp
next
  case False
  then have "c = drag_rect W H (normalized rect)"
    using assms(4) by (auto simp: create_box_rect_def Let_def)
  then show ?thesis using drag_rect_ok[of W H] assms(1,2) by simp
qed

lemma spawn_rect_ok:
  assumes "30 \<le> H" and "\<not> min 360 (W - 30) < 80"
  shows "clamp_ok W H (QRect_xywh 30 (max 0 (H div 2 - 15)) (min 360 (W - 30)) 30)"
  using assms by (auto simp: clamp_ok_def)

lemma clamp_ok_in_page:
  "clamp_ok W H r \<Longrightarrow> in_page W H r \<and> min_unless_edge W H r \<and> 1 \<le> r_width r \<and> 1 \<le> r_height r"
  by (auto simp: clamp_ok_def in_page_def min_unless_edge_def)

text \<open>The three events that place a box.\<close>

lemma release_places:
  assumes "page_inv W H s"
  shows "pv_mouseReleaseEvent btn pos s = Returned s
         \<or> (\<exists>c. create_box_rect W H 360 30 (QRect_points (drag_start s) pos) True = Some c
                \<and> pv_mouseReleaseEvent btn pos s = place_box c (s\<lparr>dragging := False\<rparr>))
         \<or> pv_mouseReleaseEvent btn pos s = Returned (s\<lparr>dragging := False\<rparr>)"
  using assms
  by (auto simp: pv_mouseReleaseEvent_def create_box_def page_inv_def split: option.splits)

lemma add_at_click_places:
  assumes "page_inv W H s"
  shows "add_box_at_click pos s = Returned s
         \<or> (\<exists>c. click_rect W H 360 30 pos = Some c \<and> add_box_at_click pos s = place_box c s)"
  using assms
  by (auto simp: add_box_at_click_def page_inv_def split: option.splits)

lemma spawn_places:
  assumes "page_inv W H s"
  shows "spawn_default_box_left_middle s = Returned s
         \<or> (\<not> min 360 (W - 30) < 80
             \<and> spawn_default_box_left_middle s
                 = place_box (QRect_xywh 30 (max 0 (H div 2 - 15)) (min 360 (W - 30)) 30) s)"
  using assms
  by (auto simp: spawn_default_box_left_middle_def Let_def create_box_def create_box_rect_def
      page_inv_def)

text \<open>
  An event that has placed a box is \<^verbatim>\<open>place_box\<close> with a rectangle \<open>c\<close> within the page.
\<close>

lemma create_step:
  assumes "page_inv W H s" and "page_event W H s e" and "1 \<le> W" and "30 \<le> H"
    and "is_create e" and "boxes (state_of (step e s)) \<noteq> boxes s"
  shows "\<exists>c s1. step e s = place_box c s1 \<and> page_inv W H s1 \<and> boxes s1 = boxes s
           \<and> next_id s1 = next_id s
           \<and> in_page W H c \<and> min_unless_edge W H c \<and> 1 \<le> r_width c \<and> 1 \<le> r_height c
           \<and> (e = SpawnDefault \<longrightarrow> clamp_ok W H c)"
proof (cases e)
  case (PvRelease btn pos)
  let ?s1 = "s\<lparr>dragging := False\<rparr>"
  have i1: "page_inv W H ?s1" by (rule page_inv_cong[OF assms(1)]) simp_all
  from release_places[OF assms(1), of btn pos] assms(6) PvRelease
  obtain c where c: "create_box_rect W H 360 30 (QRect_points (drag_start s) pos) True = Some c"
    and p: "pv_mouseReleaseEvent btn pos s = place_box c ?s1"
    by auto
  have "r_width (normalized (QRect_points (drag_start s) pos)) < 40
          \<and> r_height (normalized (QRect_points (drag_start s) pos)) < 20
        \<longrightarrow> 0 \<le> r_x (normalized (QRect_points (drag_start s) pos))"
    using assms(2) PvRelease by (simp add: Let_def)
  from create_box_rect_ok[OF assms(3,4) this c] p i1 PvRelease show ?thesis
    by (intro exI[of _ c] exI[of _ ?s1]) simp
next
  case (AddAtClick pos)
  from add_at_click_places[OF assms(1), of pos] assms(6) AddAtClick
  obtain c where c: "click_rect W H 360 30 pos = Some c"
    and p: "add_box_at_click pos s = place_box c s"
    by auto
  have "0 \<le> fst pos" using assms(2) AddAtClick by simp
  from click_rect_ok[OF assms(4) this c] p assms(1) AddAtClick show ?thesis
    by (intro exI[of _ c] exI[of _ s]) simp
next
  case SpawnDefault
  let ?c = "QRect_xywh 30 (max 0 (H div 2 - 15)) (min 360 (W - 30)) 30"
  from spawn_places[OF assms(1)] assms(6) SpawnDefault
  have n: "\<not> min 360 (W - 30) < 80" and p: "spawn_default_box_left_middle s = place_box ?c s"
    by auto
  from spawn_rect_ok[OF assms(4) n] clamp_ok_in_page[of W H ?c] p assms(1) SpawnDefault
  show ?thesis by (intro exI[of _ ?c] exI[of _ s]) simp
qed (use assms(5) in simp_all)

lemma create_step_page_inv:
  assumes "page_inv W H s" and "page_event W H s e" and "1 \<le> W" and "30 \<le> H"
    and "is_create e"
  shows "page_inv W H (state_of (step e s))"
proof (cases "boxes (state_of (step e s)) = boxes s")
  case False
  from create_step[OF assms False] obtain c s1 where
    "step e s = place_box c s1" "page_inv W H s1" "in_page W H c" by blast
  then show ?thesis using place_box_page_inv[of W H s1 c] assms(3,4) by simp
next
  case True
  show ?thesis
  proof (cases e)
    case (PvRelease btn pos)
    have i1: "page_inv W H (s\<lparr>dragging := False\<rparr>)" by (rule page_inv_cong[OF assms(1)]) simp_all
    from release_places[OF assms(1), of btn pos] True PvRelease place_box_result
    show ?thesis using assms(1) i1 by auto
  next
    case (AddAtClick pos)
    from add_at_click_places[OF assms(1), of pos] True AddAtClick place_box_result
    show ?thesis using assms(1) by auto
  next
    case SpawnDefault
    from spawn_places[OF assms(1)] True SpawnDefault place_box_result
    show ?thesis using assms(1) by auto
  qed (use assms(5) in simp_all)
qed

lemma commit_page_inv:
  assumes "page_inv W H s" and "in_page W H (rect_px before)" and "in_page W H (rect_px after)"
  shows "page_inv W H (state_of (on_change_commit b before after s))"
  unfolding on_change_commit_def using assms by (simp add: push_and_do_page_inv)

lemma commit_geom_change_page_inv:
  assumes "page_inv W H s"
  shows "page_inv W H (state_of (commit_geom_change b s))"
proof -
  let ?w = "widgets s b"
  let ?after = "\<lparr>page_index = page_index (model ?w), rect_px = geometry ?w,
                 box_text = edit_text ?w, qfont = qfont (model ?w),
                 fontsize_pt = fontsize_pt (model ?w)\<rparr>"
  have w: "widget_in_page W H ?w" by (rule page_inv_widget[OF assms])
  have "widget_in_page W H (?w\<lparr>model := ?after\<rparr>)" using w by (simp add: widget_in_page_def)
  then have "page_inv W H (update_widget b (\<lambda>w. w\<lparr>model := ?after\<rparr>) s)"
    by (rule page_inv_update_widget[OF assms])
  then show ?thesis
    using w by (simp add: commit_geom_change_def Let_def commit_page_inv widget_in_page_def)
qed

lemma tb_release_page_inv:
  assumes "page_inv W H s"
  shows "page_inv W H (state_of (tb_mouseReleaseEvent b btn s))"
proof -
  have r: "page_inv W H (update_widget b (\<lambda>w. w\<lparr>resizing := False\<rparr>) s)"
    using page_inv_widget[OF assms, of b]
    by (intro page_inv_update_widget[OF assms]) (simp add: widget_in_page_def)
  have m: "page_inv W H (update_widget b (\<lambda>w. w\<lparr>moving := False\<rparr>) s)"
    using page_inv_widget[OF assms, of b]
    by (intro page_inv_update_widget[OF assms]) (simp add: widget_in_page_def)
  show ?thesis
    using assms commit_geom_change_page_inv[OF r] commit_geom_change_page_inv[OF m]
    by (simp add: tb_mouseReleaseEvent_def)
qed

lemma tb_press_page_inv:
  assumes "page_inv W H s"
  shows "page_inv W H (tb_mousePressEvent b btn pos gpos s)"
proof -
  have s1: "page_inv W H (on_selected b s)"
    unfolding on_selected_def by (rule page_inv_cong[OF assms]) simp_all
  have w: "widget_in_page W H (widgets (on_selected b s) b)" by (rule page_inv_widget[OF s1])
  show ?thesis
    using assms s1 w
    by (auto simp: tb_mousePressEvent_def Let_def widget_in_page_def
        intro!: page_inv_update_widget)
qed

lemma tb_move_page_inv:
  assumes "page_inv W H s"
  shows "page_inv W H (tb_mouseMoveEvent b gpos s)"
proof -
  let ?w = "widgets s b"
  have w: "widget_in_page W H ?w" by (rule page_inv_widget[OF assms])
  have sz: "pv_width s = W" "pv_height s = H" using assms by (simp_all add: page_inv_def)
  show ?thesis
  proof (cases "resizing ?w")
    case True
    let ?g = "resize_geom (start_geom ?w)
                (fst gpos - fst (resize_start_global ?w), snd gpos - snd (resize_start_global ?w))
                W H"
    have "in_page W H ?g" using resize_geom_ok[of W H "start_geom ?w"] w
      by (simp add: widget_in_page_def)
    then have "widget_in_page W H (?w\<lparr>geometry := ?g\<rparr>)" using w by (simp add: widget_in_page_def)
    then show ?thesis
      using True page_inv_update_widget[OF assms, where b = b and f = "\<lambda>w. w\<lparr>geometry := ?g\<rparr>"]
      by (simp add: tb_mouseMoveEvent_def Let_def sz update_widget_def)
  next
    case False
    show ?thesis
    proof (cases "moving ?w")
      case True
      let ?g = "moved_to (move_pos (start_pos ?w)
                  (fst gpos - fst (move_start_global ?w), snd gpos - snd (move_start_global ?w))
                  (r_width (geometry ?w)) (r_height (geometry ?w)) W H) (geometry ?w)"
      have "in_page W H ?g" using move_pos_ok[of W H "geometry ?w"] w
        by (simp add: widget_in_page_def)
      then have "widget_in_page W H (?w\<lparr>geometry := ?g\<rparr>)" using w by (simp add: widget_in_page_def)
      then show ?thesis
        using True False page_inv_update_widget[OF assms, where b = b and f = "\<lambda>w. w\<lparr>geometry := ?g\<rparr>"]
        by (simp add: tb_mouseMoveEvent_def Let_def sz update_widget_def)
    next
      case False
      then show ?thesis using \<open>\<not> resizing ?w\<close> assms by (simp add: tb_mouseMoveEvent_def Let_def)
    qed
  qed
qed

lemma editing_finished_page_inv:
  assumes "page_inv W H s"
  shows "page_inv W H (state_of (on_editing_finished b s))"
proof -
  let ?w = "widgets s b"
  have w: "widget_in_page W H ?w" by (rule page_inv_widget[OF assms])
  have d: "page_inv W H (state_of (request_delete b s))"
    using assms w
    by (auto simp: request_delete_def widget_in_page_def split: option.splits
        intro!: push_and_do_page_inv)
  have u: "page_inv W H (state_of (on_change_commit b (model ?w) after
             (update_widget b (\<lambda>w. w\<lparr>model := after\<rparr>) s)))"
    if "rect_px after = geometry ?w" for after
  proof -
    have "widget_in_page W H (?w\<lparr>model := after\<rparr>)" using w that by (simp add: widget_in_page_def)
    then have "page_inv W H (update_widget b (\<lambda>w. w\<lparr>model := after\<rparr>) s)"
      by (rule page_inv_update_widget[OF assms])
    then show ?thesis using w that by (simp add: commit_page_inv widget_in_page_def)
  qed
  show ?thesis
    using assms d u by (simp add: on_editing_finished_def Let_def)
qed

lemma request_delete_page_inv:
  assumes "page_inv W H s"
  shows "page_inv W H (state_of (request_delete b s))"
  using assms page_inv_widget[OF assms, of b]
  by (auto simp: request_delete_def widget_in_page_def split: option.splits
      intro!: push_and_do_page_inv)

lemma set_font_settings_page_inv:
  assumes "page_inv W H s"
  shows "page_inv W H (state_of (set_font_settings f n s))"
proof -
  let ?s1 = "s\<lparr>current_qfont := f, current_fontsize := n\<rparr>"
  have i1: "page_inv W H ?s1" by (rule page_inv_cong[OF assms]) simp_all
  show ?thesis
  proof (cases "selected s")
    case None
    then show ?thesis using i1 by (simp add: set_font_settings_def Let_def)
  next
    case (Some b)
    have w: "widget_in_page W H (widgets s b)" by (rule page_inv_widget[OF assms])
    show ?thesis
      using Some w push_and_do_page_inv[OF i1]
      by (simp add: set_font_settings_def Let_def widget_in_page_def)
  qed
qed

lemma set_rendered_page_page_inv:
  assumes "page_inv W H s"
  shows "page_inv W H (set_rendered_page (W, H) pidx z s)"
  using assms set_visibility_in_page[of W H "widgets s"]
  by (simp add: set_rendered_page_def Let_def page_inv_def)

lemma step_page_inv:
  assumes "page_inv W H s" and "page_event W H s e" and "1 \<le> W" and "30 \<le> H"
  shows "page_inv W H (state_of (step e s))"
proof (cases e)
  case (PvPress btn pos hit)
  then show ?thesis
    by (auto simp: pv_mousePressEvent_def split: option.splits intro: page_inv_cong[OF assms(1)])
next
  case (PvRelease btn pos)
  then show ?thesis using create_step_page_inv[OF assms] by simp
next
  case SpawnDefault
  then show ?thesis using create_step_page_inv[OF assms] by simp
next
  case (AddAtClick pos)
  then show ?thesis using create_step_page_inv[OF assms] by simp
next
  case (TbPress b btn pos gpos)
  then show ?thesis using tb_press_page_inv[OF assms(1)] by simp
next
  case (TbMove b gpos)
  then show ?thesis using tb_move_page_inv[OF assms(1)] by simp
next
  case (TbRelease b btn)
  then show ?thesis using tb_release_page_inv[OF assms(1)] by simp
next
  case (Types b t)
  have "widget_in_page W H ((widgets s b)\<lparr>edit_text := t\<rparr>)"
    using page_inv_widget[OF assms(1), of b] by (simp add: widget_in_page_def)
  then show ?thesis using Types page_inv_update_widget[OF assms(1)] by (simp add: user_types_def)
next
  case (EditingFinished b)
  then show ?thesis using editing_finished_page_inv[OF assms(1)] by simp
next
  case (RequestDelete b)
  then show ?thesis using request_delete_page_inv[OF assms(1)] by simp
next
  case (FocusIn b)
  have "page_inv W H (on_selected b s)"
    unfolding on_selected_def by (rule page_inv_cong[OF assms(1)]) simp_all
  then show ?thesis using FocusIn by simp
next
  case (SetTextTool enabled)
  then show ?thesis
    by (auto simp: set_text_tool_def Let_def intro: page_inv_cong[OF assms(1)])
next
  case (SetFontSettings f n)
  then show ?thesis using set_font_settings_page_inv[OF assms(1)] by simp
next
  case (SetRenderedPage qpix pidx z)
  then show ?thesis using assms(2) set_rendered_page_page_inv[OF assms(1)] by simp
next
  case Undo
  then show ?thesis using undo_page_inv[OF assms(1)] by simp
next
  case Redo
  then show ?thesis using redo_page_inv[OF assms(1)] by simp
qed

lemma run_page_inv:
  "page_inv W H s \<Longrightarrow> page_events W H es s \<Longrightarrow> 1 \<le> W \<Longrightarrow> 30 \<le> H \<Longrightarrow> page_inv W H (run es s)"
  by (induction es arbitrary: s) (simp_all add: step_page_inv)

lemma rendered_page_inv:
  assumes "0 \<le> W" and "0 \<le> H"
  shows "page_inv W H (set_rendered_page (W, H) pidx z (PageView_init w0 h0))"
  using assms
  by (simp add: page_inv_def set_rendered_page_def PageView_init_def Let_def widget_in_page_def
      new_widget_def in_page_null)

lemma page_events_append:
  "page_events W H (es @ [e]) s \<longleftrightarrow> page_events W H es s \<and> page_event W H (run es s) e"
  by (induction es arbitrary: s) simp_all

lemma release_commits_geometry:
  assumes "resizing (widgets s b) \<or> moving (widgets s b)"
  shows "returned (tb_mouseReleaseEvent b LeftButton s)
         \<and> rect_px (model (widgets (state_of (tb_mouseReleaseEvent b LeftButton s)) b))
             = geometry (widgets s b)
         \<and> length (undo_list (state_of (tb_mouseReleaseEvent b LeftButton s)))
             = Suc (length (undo_list s))"
  using assms
  by (auto simp: tb_mouseReleaseEvent_def commit_geom_change_def on_change_commit_def
      push_and_do_def update_widget_def set_model_def Let_def)

lemma move_event_resizing:
  assumes "resizing (widgets s b)"
  shows "resizing (widgets (tb_mouseMoveEvent b gpos s) b)
         \<and> geometry (widgets (tb_mouseMoveEvent b gpos s) b)
             = resize_geom (start_geom (widgets s b))
                 (fst gpos - fst (resize_start_global (widgets s b)),
                  snd gpos - snd (resize_start_global (widgets s b)))
                 (pv_width s) (pv_height s)"
  using assms by (simp add: tb_mouseMoveEvent_def update_widget_def Let_def)

lemma move_event_moving:
  assumes "\<not> resizing (widgets s b)" and "moving (widgets s b)"
  shows "moving (widgets (tb_mouseMoveEvent b gpos s) b)
         \<and> geometry (widgets (tb_mouseMoveEvent b gpos s) b)
             = moved_to (move_pos (start_pos (widgets s b))
                 (fst gpos - fst (move_start_global (widgets s b)),
                  snd gpos - snd (move_start_global (widgets s b)))
                 (r_width (geometry (widgets s b))) (r_height (geometry (widgets s b)))
                 (pv_width s) (pv_height s)) (geometry (widgets s b))"
  using assms by (simp add: tb_mouseMoveEvent_def update_widget_def Let_def)

text \<open>
  Claim C2, amended. Take a fresh page view rendered at \<open>W\<close> by \<open>H\<close> pixels, at least
  1 wide and 30 high (the view has the size of the image from then on), and any events
  after that rendering, among them no rendering of another pixel size and no click whose
  rectangle starts left of the page. Then, after the last event \<open>e\<close>:
  \<^item> every rectangle a box holds, the committed one of its model and the geometry of its
    widget, satisfies \<open>0 \<le> x\<close>, \<open>0 \<le> y\<close>, \<open>x + width \<le> W\<close> and \<open>y + height \<le> H\<close>;
  \<^item> if \<open>e\<close> has placed a box, its rectangle is at least 60 wide unless it ends at the
    right page edge and at least 28 high unless it ends at the bottom edge, and at
    least 1 wide and high in any case; placed by the tool button, it satisfies the six
    inequalities as claimed;
  \<^item> if \<open>e\<close> is a step of a resize gesture, the geometry it gives the box is at least 60
    wide unless it ends at the right page edge, and at least 28 high unless it ends at
    the bottom edge;
  \<^item> if \<open>e\<close> is a step of a move gesture, the box keeps its width and height;
  \<^item> if \<open>e\<close> is the release that ends either gesture, one command is pushed and the
    committed rectangle is the geometry the box had at the release.
\<close>

theorem C2_geometry_clamp_amended:
  assumes "1 \<le> W" and "30 \<le> H"
    and "page_events W H (es @ [e]) (set_rendered_page (W, H) pidx z (PageView_init w0 h0))"
  shows
    "let s = run es (set_rendered_page (W, H) pidx z (PageView_init w0 h0));
         s' = state_of (step e s)
     in (\<forall>d. in_page W H (rect_px (model (widgets s' d))) \<and> in_page W H (geometry (widgets s' d)))
        \<and> (is_create e \<and> boxes s' \<noteq> boxes s \<longrightarrow>
             boxes s' = boxes s @ [next_id s]
             \<and> min_unless_edge W H (rect_px (model (widgets s' (next_id s))))
             \<and> 1 \<le> r_width (rect_px (model (widgets s' (next_id s))))
             \<and> 1 \<le> r_height (rect_px (model (widgets s' (next_id s)))))
        \<and> (e = SpawnDefault \<and> boxes s' \<noteq> boxes s \<longrightarrow>
             clamp_ok W H (rect_px (model (widgets s' (next_id s)))))
        \<and> (e = TbMove b gpos \<and> resizing (widgets s b) \<longrightarrow>
             min_unless_edge W H (geometry (widgets s' b)))
        \<and> (e = TbMove b gpos \<and> \<not> resizing (widgets s b) \<and> moving (widgets s b) \<longrightarrow>
             r_width (geometry (widgets s' b)) = r_width (geometry (widgets s b))
             \<and> r_height (geometry (widgets s' b)) = r_height (geometry (widgets s b)))
        \<and> (e = TbRelease b LeftButton \<and> (resizing (widgets s b) \<or> moving (widgets s b)) \<longrightarrow>
             rect_px (model (widgets s' b)) = geometry (widgets s b)
             \<and> length (undo_list s') = Suc (length (undo_list s)))"
proof -
  define s where "s = run es (set_rendered_page (W, H) pidx z (PageView_init w0 h0))"
  define s' where "s' = state_of (step e s)"
  have es: "page_events W H es (set_rendered_page (W, H) pidx z (PageView_init w0 h0))"
    and e: "page_event W H s e"
    using assms(3) by (simp_all add: page_events_append s_def)
  have i: "page_inv W H s"
    unfolding s_def using assms(1,2) by (intro run_page_inv[OF rendered_page_inv es]) simp_all
  have i': "page_inv W H s'"
    unfolding s'_def by (rule step_page_inv[OF i e assms(1,2)])
  have sz: "pv_width s = W" "pv_height s = H" using i by (simp_all add: page_inv_def)
  have c1: "\<forall>d. in_page W H (rect_px (model (widgets s' d))) \<and> in_page W H (geometry (widgets s' d))"
    using page_inv_widget[OF i'] by (simp add: widget_in_page_def)
  have c2: "boxes s' = boxes s @ [next_id s]
             \<and> min_unless_edge W H (rect_px (model (widgets s' (next_id s))))
             \<and> 1 \<le> r_width (rect_px (model (widgets s' (next_id s))))
             \<and> 1 \<le> r_height (rect_px (model (widgets s' (next_id s))))
             \<and> (e = SpawnDefault \<longrightarrow> clamp_ok W H (rect_px (model (widgets s' (next_id s)))))"
    if "is_create e" "boxes s' \<noteq> boxes s"
  proof -
    from create_step[OF i e assms(1,2) that(1)] that(2) obtain c s1 where
      p: "step e s = place_box c s1" "boxes s1 = boxes s" "next_id s1 = next_id s"
         "min_unless_edge W H c" "1 \<le> r_width c" "1 \<le> r_height c"
         "e = SpawnDefault \<longrightarrow> clamp_ok W H c"
      unfolding s'_def by blast
    have s'eq: "s' = state_of (place_box c s1)" using p(1) by (simp add: s'_def)
    show ?thesis unfolding s'eq using place_box_result[of c s1] p(2-) by simp
  qed
  have c4: "min_unless_edge W H (geometry (widgets s' b))"
    if "e = TbMove b gpos" "resizing (widgets s b)"
  proof -
    have "in_page W H (start_geom (widgets s b))"
      using page_inv_widget[OF i, of b] by (simp add: widget_in_page_def)
    from resize_geom_ok[OF this] move_event_resizing[OF that(2), of gpos] that(1)
    show ?thesis by (simp add: s'_def sz)
  qed
  have c5: "r_width (geometry (widgets s' b)) = r_width (geometry (widgets s b))
             \<and> r_height (geometry (widgets s' b)) = r_height (geometry (widgets s b))"
    if "e = TbMove b gpos" "\<not> resizing (widgets s b)" "moving (widgets s b)"
  proof -
    have "in_page W H (geometry (widgets s b))"
      using page_inv_widget[OF i, of b] by (simp add: widget_in_page_def)
    from move_pos_ok[OF this] move_event_moving[OF that(2,3), of gpos] that(1)
    show ?thesis by (simp add: s'_def sz)
  qed
  have c6: "rect_px (model (widgets s' b)) = geometry (widgets s b)
             \<and> length (undo_list s') = Suc (length (undo_list s))"
    if "e = TbRelease b LeftButton" "resizing (widgets s b) \<or> moving (widgets s b)"
    using release_commits_geometry[OF that(2)] that(1) by (simp add: s'_def)
  have c3: "clamp_ok W H (rect_px (model (widgets s' (next_id s))))"
    if "e = SpawnDefault" "boxes s' \<noteq> boxes s"
    using c2[OF _ that(2)] that(1) by simp
  show ?thesis
    unfolding Let_def s_def[symmetric] s'_def[symmetric]
    using c1 c2 c3 c4 c5 c6 by blast
qed

lemmas demo_clamp_defs = demo_rendered_def demo_edge_press_def demo_edge_click_def
  demo_edge_handle_def demo_edge_resize_def demo_edge_border_def demo_low_page_def

lemma demo_edge_events:
  "page_events 800 1000 (demo_edge_press @ [PvRelease LeftButton (750, 400)]) demo_rendered"
  "page_events 800 1000 (demo_edge_handle @ [TbMove 0 (400, 590)]) demo_rendered"
  "page_events 800 1000 (demo_edge_resize @ [TbRelease 0 LeftButton]) demo_rendered"
  "page_events 800 1000 (demo_edge_border @ [TbMove 0 (100, 600)]) demo_rendered"
  "page_events 800 1000 ([] @ [SpawnDefault]) demo_rendered"
  by (simp_all add: demo_clamp_defs op_defs geom_defs)

lemma demo_edge_states:
  "boxes (run demo_edge_press demo_rendered) = []"
  "next_id (run demo_edge_press demo_rendered) = 0"
  "boxes (state_of (step (PvRelease LeftButton (750, 400)) (run demo_edge_press demo_rendered)))
     = [0]"
  "rect_px (model (widgets (state_of (step (PvRelease LeftButton (750, 400))
      (run demo_edge_press demo_rendered))) 0)) = QRect_xywh 750 385 50 30"
  "resizing (widgets (run demo_edge_handle demo_rendered) 0)"
  "geometry (widgets (state_of (step (TbMove 0 (400, 590))
      (run demo_edge_handle demo_rendered))) 0) = QRect_xywh 750 385 50 28"
  "resizing (widgets (run demo_edge_resize demo_rendered) 0)"
  "geometry (widgets (run demo_edge_resize demo_rendered) 0) = QRect_xywh 750 385 50 28"
  "\<not> resizing (widgets (run demo_edge_border demo_rendered) 0)"
  "moving (widgets (run demo_edge_border demo_rendered) 0)"
  "geometry (widgets (run demo_edge_border demo_rendered) 0) = QRect_xywh 750 385 50 30"
  "geometry (widgets (state_of (step (TbMove 0 (100, 600))
      (run demo_edge_border demo_rendered))) 0) = QRect_xywh 350 385 50 30"
  "boxes (run [] demo_rendered) = []" "next_id (run [] demo_rendered) = 0"
  "boxes (state_of (step SpawnDefault (run [] demo_rendered))) = [0]"
  "rect_px (model (widgets (state_of (step SpawnDefault (run [] demo_rendered))) 0))
     = QRect_xywh 30 485 360 30"
  by (simp_all add: demo_clamp_defs op_defs geom_defs)

theorem C2_geometry_clamp_amended_witness:
  "page_events 800 1000 (demo_edge_press @ [PvRelease LeftButton (750, 400)]) demo_rendered
   \<and> boxes (run demo_edge_press demo_rendered) = []
   \<and> boxes (state_of (step (PvRelease LeftButton (750, 400)) (run demo_edge_press demo_rendered)))
       = [0]
   \<and> rect_px (model (widgets (state_of (step (PvRelease LeftButton (750, 400))
        (run demo_edge_press demo_rendered))) 0)) = QRect_xywh 750 385 50 30
   \<and> in_page 800 1000 (QRect_xywh 750 385 50 30)
   \<and> min_unless_edge 800 1000 (QRect_xywh 750 385 50 30)
   \<and> page_events 800 1000 (demo_edge_handle @ [TbMove 0 (400, 590)]) demo_rendered
   \<and> resizing (widgets (run demo_edge_handle demo_rendered) 0)
   \<and> geometry (widgets (state_of (step (TbMove 0 (400, 590))
        (run demo_edge_handle demo_rendered))) 0) = QRect_xywh 750 385 50 28
   \<and> in_page 800 1000 (QRect_xywh 750 385 50 28)
   \<and> min_unless_edge 800 1000 (QRect_xywh 750 385 50 28)
   \<and> page_events 800 1000 (demo_edge_resize @ [TbRelease 0 LeftButton]) demo_rendered
   \<and> rect_px (model (widgets (state_of (step (TbRelease 0 LeftButton)
        (run demo_edge_resize demo_rendered))) 0)) = QRect_xywh 750 385 50 28
   \<and> page_events 800 1000 (demo_edge_border @ [TbMove 0 (100, 600)]) demo_rendered
   \<and> moving (widgets (run demo_edge_border demo_rendered) 0)
   \<and> geometry (widgets (state_of (step (TbMove 0 (100, 600))
        (run demo_edge_border demo_rendered))) 0) = QRect_xywh 350 385 50 30
   \<and> in_page 800 1000 (QRect_xywh 350 385 50 30)
   \<and> r_width (QRect_xywh 350 385 50 30) = r_width (QRect_xywh 750 385 50 30)
   \<and> page_events 800 1000 ([] @ [SpawnDefault]) demo_rendered
   \<and> boxes (state_of (step SpawnDefault (run [] demo_rendered))) = [0]
   \<and> clamp_ok 800 1000 (QRect_xywh 30 485 360 30)"
proof -
  note ev = demo_edge_events
  note st = demo_edge_states
  have wh: "(1::int) \<le> 800" "(30::int) \<le> 1000" by simp_all
  note T = C2_geometry_clamp_amended[where W = 800 and H = 1000 and pidx = 0 and z = 2
      and ?w0.0 = 800 and ?h0.0 = 1000, unfolded demo_rendered_def[symmetric], OF wh]
  note click = T[OF ev(1), unfolded Let_def]
  note resize = T[OF ev(2), where b = 0 and gpos = "(400, 590)", unfolded Let_def]
  note release = T[OF ev(3), where b = 0, unfolded Let_def]
  note move = T[OF ev(4), where b = 0 and gpos = "(100, 600)", unfolded Let_def]
  note spawn = T[OF ev(5), unfolded Let_def]
  have c1: "in_page 800 1000 (QRect_xywh 750 385 50 30)"
    using click[THEN conjunct1, THEN spec, of 0] by (simp only: st)
  have c2: "min_unless_edge 800 1000 (QRect_xywh 750 385 50 30)"
    using click[THEN conjunct2, THEN conjunct1] by (simp add: st del: step.simps run.simps)
  have r1: "in_page 800 1000 (QRect_xywh 750 385 50 28)"
    using resize[THEN conjunct1, THEN spec, of 0] by (simp only: st)
  have r2: "min_unless_edge 800 1000 (QRect_xywh 750 385 50 28)"
    using resize[THEN conjunct2, THEN conjunct2, THEN conjunct2, THEN conjunct1]
    by (simp add: st del: step.simps run.simps)
  have rl: "rect_px (model (widgets (state_of (step (TbRelease 0 LeftButton)
        (run demo_edge_resize demo_rendered))) 0)) = QRect_xywh 750 385 50 28"
    using release[THEN conjunct2, THEN conjunct2, THEN conjunct2, THEN conjunct2, THEN conjunct2]
    by (simp add: st del: step.simps run.simps)
  have m1: "in_page 800 1000 (QRect_xywh 350 385 50 30)"
    using move[THEN conjunct1, THEN spec, of 0] by (simp only: st)
  have m2: "r_width (QRect_xywh 350 385 50 30) = r_width (QRect_xywh 750 385 50 30)"
    using move[THEN conjunct2, THEN conjunct2, THEN conjunct2, THEN conjunct2, THEN conjunct1]
    by (simp add: st del: step.simps run.simps)
  have sp: "clamp_ok 800 1000 (QRect_xywh 30 485 360 30)"
    using spawn[THEN conjunct2, THEN conjunct2, THEN conjunct1] by (simp add: st del: step.simps run.simps)
  show ?thesis
    using c1 c2 r1 r2 rl m1 m2 sp by (simp add: ev st del: step.simps run.simps)
qed

text \<open>
  Claim C2 as stated fails. On the 800 by 1000 page a click at (750, 400) commits the
  rectangle (750, 385, 50, 30), 50 wide, and a drag from (790, 100) to (795, 200)
  commits (790, 100, 10, 101), 10 wide. A press at (5, 400) released at (-5, 405) is a
  click whose rectangle starts at -4, and the box is placed at \<open>x = -4\<close>. After the
  page with the box (30, 385, 360, 30) is rendered again 385 pixels wide, a press and
  release on the resize handle commit that rectangle, which ends at 390. On a page 20
  pixels high a click commits a rectangle 30 high.
\<close>

theorem C2_geometry_clamp_counterexample:
  "image_w_px demo_page = 800 \<and> image_h_px demo_page = 1000
   \<and> boxes (run [PvPress LeftButton (750, 400) None, PvRelease LeftButton (750, 400)] demo_page)
       = [0]
   \<and> rect_px (model (widgets
        (run [PvPress LeftButton (750, 400) None, PvRelease LeftButton (750, 400)] demo_page) 0))
       = QRect_xywh 750 385 50 30
   \<and> \<not> clamp_ok 800 1000 (QRect_xywh 750 385 50 30)
   \<and> rect_px (model (widgets
        (run [PvPress LeftButton (790, 100) None, PvRelease LeftButton (795, 200)] demo_page) 0))
       = QRect_xywh 790 100 10 101
   \<and> \<not> clamp_ok 800 1000 (QRect_xywh 790 100 10 101)
   \<and> rect_px (model (widgets
        (run [PvPress LeftButton (5, 400) None, PvRelease LeftButton (- 5, 405)] demo_page) 0))
       = QRect_xywh (- 4) 385 360 30
   \<and> \<not> clamp_ok 800 1000 (QRect_xywh (- 4) 385 360 30)
   \<and> image_w_px (run [SetRenderedPage (385, 1000) 0 1] demo_click) = 385
   \<and> length (undo_list (run [SetRenderedPage (385, 1000) 0 1] demo_click)) = 1
   \<and> length (undo_list (run [SetRenderedPage (385, 1000) 0 1,
        TbPress 0 LeftButton (352, 25) (600, 700), TbRelease 0 LeftButton] demo_click)) = 2
   \<and> rect_px (model (widgets (run [SetRenderedPage (385, 1000) 0 1,
        TbPress 0 LeftButton (352, 25) (600, 700), TbRelease 0 LeftButton] demo_click) 0))
       = QRect_xywh 30 385 360 30
   \<and> \<not> clamp_ok 385 1000 (QRect_xywh 30 385 360 30)
   \<and> image_h_px demo_low_page = 20
   \<and> rect_px (model (widgets
        (run [PvPress LeftButton (30, 10) None, PvRelease LeftButton (30, 10)] demo_low_page) 0))
       = QRect_xywh 30 0 360 30
   \<and> \<not> clamp_ok 800 20 (QRect_xywh 30 0 360 30)"
  by (simp add: demo_click_def demo_low_page_def op_defs geom_defs clamp_ok_def)

subsection \<open>Saving\<close>

lemma style_freetext_plain_eq:
  "style_freetext_plain lib k (add_freetext_annot pg r t) f n =
     \<lparr>a_page = pg, a_rect = r, a_text = t,
      border_width = (if style_fails lib k SetBorder then None else Some 0),
      colors_cleared = (\<not> style_fails lib k SetColors),
      opacity = (if style_fails lib k SetOpacity then None else Some 1),
      default_appearance =
        (if style_fails lib k SetDefaultAppearance then None
         else Some (qfont_to_pdf_basefont f, n, (0, 0, 0))),
      updated = (\<not> style_fails lib k Update)\<rparr>"
  by (simp add: style_freetext_plain_def add_freetext_annot_def try_pass_def Let_def)

lemma annot_core_styled:
  "annot_core (style_freetext_plain lib k (add_freetext_annot pg r t) f n) = (pg, r, t)"
  by (simp add: style_freetext_plain_eq annot_core_def)

lemma save_boxes_ok:
  assumes "only_styles_fail lib" and "zoom s \<noteq> 0"
  shows "save_boxes lib s bs acc =
           Inr (acc @ map (\<lambda>(k, b). expected_annot lib s k b)
                        (enumerate (length acc)
                           (filter (\<lambda>b. strip (edit_text (widgets s b)) \<noteq> []) bs)))"
proof (induction bs arbitrary: acc)
  case Nil
  then show ?case by simp
next
  case (Cons b bs)
  show ?case
  proof (cases "strip (edit_text (widgets s b)) = []")
    case True
    then show ?thesis using Cons.IH[of acc] by simp
  next
    case False
    let ?m = "model (widgets s b)"
    let ?a = "expected_annot lib s (length acc) b"
    have st: "style_freetext_plain lib (length acc)
                (add_freetext_annot (page_index ?m)
                   (real_of_int (r_left (rect_px ?m)) / zoom s,
                    real_of_int (r_top (rect_px ?m)) / zoom s,
                    real_of_int (r_right (rect_px ?m)) / zoom s,
                    real_of_int (r_bottom (rect_px ?m)) / zoom s)
                   (strip (edit_text (widgets s b))))
                (qfont ?m) (fontsize_pt ?m) = ?a"
      by (simp add: style_freetext_plain_eq expected_annot_def Let_def)
    have "save_boxes lib s (b # bs) acc = save_boxes lib s bs (acc @ [?a])"
      using False assms by (simp add: Let_def only_styles_fail_def px_rect_to_pdf_rect_def st)
    then show ?thesis using Cons.IH[of "acc @ [?a]"] False by simp
  qed
qed

lemma save_boxes_style_independent:
  assumes "map annot_core acc = map annot_core acc'"
  shows "map_sum id (map annot_core) (save_boxes (lib\<lparr>style_fails := f\<rparr>) s bs acc)
           = map_sum id (map annot_core) (save_boxes lib s bs acc')"
  using assms
proof (induction bs arbitrary: acc acc')
  case Nil
  then show ?case by simp
next
  case (Cons b bs)
  show ?case
  proof (cases "strip (edit_text (widgets s b)) = []")
    case True
    then show ?thesis using Cons.IH[OF Cons.prems] by simp
  next
    case False
    show ?thesis
    proof (cases "px_rect_to_pdf_rect s (rect_px (model (widgets s b)))")
      case (Inl e)
      then show ?thesis using False by (simp add: Let_def)
    next
      case (Inr r)
      let ?m = "model (widgets s b)"
      let ?t = "strip (edit_text (widgets s b))"
      have ih: "map_sum id (map annot_core)
                  (save_boxes (lib\<lparr>style_fails := f\<rparr>) s bs
                     (acc @ [style_freetext_plain (lib\<lparr>style_fails := f\<rparr>) (length acc)
                        (add_freetext_annot (page_index ?m) r ?t) (qfont ?m) (fontsize_pt ?m)]))
                = map_sum id (map annot_core)
                  (save_boxes lib s bs
                     (acc' @ [style_freetext_plain lib (length acc')
                        (add_freetext_annot (page_index ?m) r ?t) (qfont ?m) (fontsize_pt ?m)]))"
        by (rule Cons.IH) (simp add: Cons.prems annot_core_styled)
      show ?thesis
        using False Inr ih by (simp add: Let_def id_def)
    qed
  qed
qed


lemma only_styles_fail_upd [simp]:
  "only_styles_fail (lib\<lparr>style_fails := f\<rparr>) = only_styles_fail lib"
  by (simp add: only_styles_fail_def)

lemma save_pdf_ok:
  assumes "only_styles_fail lib" and "zoom s \<noteq> 0" and "path \<noteq> []"
  shows "save_pdf lib (Some path) s =
           \<lparr>persisted = map (\<lambda>(k, b). expected_annot lib s k b) (enumerate 0 (saved_boxes s)),
            report = Saved\<rparr>"
  using assms save_boxes_ok[OF assms(1,2), of "boxes s" "[]"]
  by (simp add: save_pdf_def saved_boxes_def only_styles_fail_def)

lemma px_rect_to_pdf_rect_Inr:
  "zoom s \<noteq> 0 \<Longrightarrow>
     px_rect_to_pdf_rect s r =
       Inr (real_of_int (r_left r) / zoom s, real_of_int (r_top r) / zoom s,
            real_of_int (r_right r) / zoom s, real_of_int (r_bottom r) / zoom s)"
  by (simp add: px_rect_to_pdf_rect_def)

text \<open>
  Claim C5. When no library call other than a style call raises (and the zoom is not
  zero, a path is set), the save reports success and has written exactly one annotation
  per box whose stripped line-edit text is not empty, in the order of the collection,
  each with the page index of the box's model, the rectangle \<^verbatim>\<open>px_rect_to_pdf_rect\<close>
  gives for the model's pixel rectangle, and the stripped text; the other boxes, those
  whose text is empty or holds nothing but whitespace code points, ASCII or not (see
  \<open>strip_Nil_iff\<close>), produce nothing. The witness is the collection of three boxes
  whose second holds a blank, a no-break space and an ideographic space.
\<close>

theorem C5_save_skips_empties:
  assumes "only_styles_fail lib" and "zoom s \<noteq> 0" and "path \<noteq> []"
  shows "report (save_pdf lib (Some path) s) = Saved
         \<and> length (persisted (save_pdf lib (Some path) s)) = length (saved_boxes s)
         \<and> map (\<lambda>a. (a_page a, Inr (a_rect a), a_text a)) (persisted (save_pdf lib (Some path) s))
             = map (\<lambda>b. (page_index (model (widgets s b)),
                          px_rect_to_pdf_rect s (rect_px (model (widgets s b))),
                          strip (edit_text (widgets s b))))
                 (saved_boxes s)"
proof -
  have "map (\<lambda>a. (a_page a, Inr (a_rect a), a_text a))
          (map (\<lambda>(k, b). expected_annot lib s k b) (enumerate n bs))
        = map (\<lambda>b. (page_index (model (widgets s b)),
                     px_rect_to_pdf_rect s (rect_px (model (widgets s b))),
                     strip (edit_text (widgets s b)))) bs" for n bs
    by (induction bs arbitrary: n)
       (simp_all add: expected_annot_def Let_def px_rect_to_pdf_rect_Inr[OF assms(2)])
  then show ?thesis by (simp add: save_pdf_ok[OF assms])
qed

text \<open>
  Claim C9. Whatever style calls raise, the report of the save and the page, rectangle
  and text of every annotation written are the same as for any other pattern of style
  failures: no style failure makes the save fail or drops an annotation. And when only
  style calls can raise, the save reports success and writes, for the \<open>k\<close>-th saved box,
  the annotation on which exactly the styles whose calls did not raise are set.
\<close>

theorem C9_style_failures_do_not_abort:
  "report (save_pdf (lib\<lparr>style_fails := f\<rparr>) path s) = report (save_pdf lib path s)
   \<and> map annot_core (persisted (save_pdf (lib\<lparr>style_fails := f\<rparr>) path s))
       = map annot_core (persisted (save_pdf lib path s))
   \<and> (only_styles_fail lib \<and> zoom s \<noteq> 0 \<and> path = Some p \<and> p \<noteq> [] \<longrightarrow>
        report (save_pdf (lib\<lparr>style_fails := f\<rparr>) path s) = Saved
        \<and> persisted (save_pdf (lib\<lparr>style_fails := f\<rparr>) path s)
            = map (\<lambda>(k, b). expected_annot (lib\<lparr>style_fails := f\<rparr>) s k b)
                (enumerate 0 (saved_boxes s)))"
proof (intro conjI impI)
  have ind: "map_sum id (map annot_core) (save_boxes (lib\<lparr>style_fails := f\<rparr>) s (boxes s) [])
               = map_sum id (map annot_core) (save_boxes lib s (boxes s) [])"
    by (rule save_boxes_style_independent) simp
  show "report (save_pdf (lib\<lparr>style_fails := f\<rparr>) path s) = report (save_pdf lib path s)"
    using ind
    by (cases "save_boxes (lib\<lparr>style_fails := f\<rparr>) s (boxes s) []";
        cases "save_boxes lib s (boxes s) []")
       (auto simp: save_pdf_def split: option.splits)
  show "map annot_core (persisted (save_pdf (lib\<lparr>style_fails := f\<rparr>) path s))
          = map annot_core (persisted (save_pdf lib path s))"
    using ind
    by (cases "save_boxes (lib\<lparr>style_fails := f\<rparr>) s (boxes s) []";
        cases "save_boxes lib s (boxes s) []")
       (auto simp: save_pdf_def split: option.splits)
next
  assume a: "only_styles_fail lib \<and> zoom s \<noteq> 0 \<and> path = Some p \<and> p \<noteq> []"
  then have "save_pdf (lib\<lparr>style_fails := f\<rparr>) path s =
           \<lparr>persisted = map (\<lambda>(k, b). expected_annot (lib\<lparr>style_fails := f\<rparr>) s k b)
                           (enumerate 0 (saved_boxes s)),
            report = Saved\<rparr>"
    using save_pdf_ok[of "lib\<lparr>style_fails := f\<rparr>" s p] by simp
  then show "report (save_pdf (lib\<lparr>style_fails := f\<rparr>) path s) = Saved"
    and "persisted (save_pdf (lib\<lparr>style_fails := f\<rparr>) path s)
            = map (\<lambda>(k, b). expected_annot (lib\<lparr>style_fails := f\<rparr>) s k b)
                (enumerate 0 (saved_boxes s))"
    by simp_all
qed

lemma demo_three_facts:
  "boxes demo_three = [0, Suc 0, 2]" "zoom demo_three = 2"
  "edit_text (widgets demo_three 0) = [0x68, 0x69]"
  "edit_text (widgets demo_three (Suc 0)) = [0x20, 0xA0, 0x3000]"
  "edit_text (widgets demo_three 2) = [0x6E, 0x6F, 0x74, 0x65]"
  "model (widgets demo_three 0) = \<lparr>page_index = 0, rect_px = QRect_xywh 30 385 360 30,
      box_text = [0x68, 0x69], qfont = ''Arial'', fontsize_pt = 12\<rparr>"
  "model (widgets demo_three 2) = \<lparr>page_index = 0, rect_px = QRect_xywh 30 585 360 30,
      box_text = [0x6E, 0x6F, 0x74, 0x65], qfont = ''Arial'', fontsize_pt = 12\<rparr>"
  by (simp_all add: demo_three_def demo_two_def demo_click_def op_defs geom_defs strip_def
      py_isspace_def numeral_2_eq_2)

lemma strip_examples:
  "strip [0x68, 0x69] = [0x68, 0x69]" "strip [0x20, 0xA0, 0x3000] = []"
  "strip [0x6E, 0x6F, 0x74, 0x65] = [0x6E, 0x6F, 0x74, 0x65]"
  by (simp_all add: strip_def py_isspace_def)

lemma demo_three_saved: "saved_boxes demo_three = [0, 2]"
  by (simp add: saved_boxes_def demo_three_facts strip_examples)

theorem C5_save_skips_empties_witness:
  "only_styles_fail lib_ok \<and> zoom demo_three \<noteq> 0 \<and> ''a.pdf'' \<noteq> []
   \<and> boxes demo_three = [0, 1, 2]
   \<and> strip (edit_text (widgets demo_three 0)) = [0x68, 0x69]
   \<and> strip (edit_text (widgets demo_three 1)) = []
   \<and> strip (edit_text (widgets demo_three 2)) = [0x6E, 0x6F, 0x74, 0x65]
   \<and> report (save_pdf lib_ok (Some ''a.pdf'') demo_three) = Saved
   \<and> length (persisted (save_pdf lib_ok (Some ''a.pdf'') demo_three)) = 2
   \<and> map (\<lambda>a. (a_page a, Inr (a_rect a), a_text a))
        (persisted (save_pdf lib_ok (Some ''a.pdf'') demo_three))
       = [(page_index (model (widgets demo_three 0)),
           px_rect_to_pdf_rect demo_three (rect_px (model (widgets demo_three 0))), [0x68, 0x69]),
          (page_index (model (widgets demo_three 2)),
           px_rect_to_pdf_rect demo_three (rect_px (model (widgets demo_three 2))), [0x6E, 0x6F, 0x74, 0x65])]
   \<and> map annot_core (persisted (save_pdf lib_ok (Some ''a.pdf'') demo_three))
       = [(0, (15, 192.5, 194.5, 207), [0x68, 0x69]), (0, (15, 292.5, 194.5, 307), [0x6E, 0x6F, 0x74, 0x65])]"
proof -
  have l: "only_styles_fail lib_ok" by (simp add: only_styles_fail_def lib_ok_def)
  have z: "zoom demo_three \<noteq> 0" by (simp add: demo_three_facts)
  have p: "''a.pdf'' \<noteq> []" by simp
  have core: "map annot_core (persisted (save_pdf lib_ok (Some ''a.pdf'') demo_three))
       = [(0, (15, 192.5, 194.5, 207), [0x68, 0x69]), (0, (15, 292.5, 194.5, 307), [0x6E, 0x6F, 0x74, 0x65])]"
    by (simp add: save_pdf_ok[OF l z p] demo_three_saved enumerate_simps expected_annot_def
        Let_def annot_core_def demo_three_facts strip_examples geom_defs)
  show ?thesis
    using C5_save_skips_empties[OF l z p] l z core
    by (simp add: demo_three_saved demo_three_facts strip_examples)
qed

theorem C9_style_failures_do_not_abort_witness:
  "only_styles_fail lib_ok \<and> zoom demo_three \<noteq> 0
   \<and> style_fails lib_flaky 0 SetColors \<and> style_fails lib_flaky 1 SetOpacity
   \<and> report (save_pdf lib_flaky (Some ''a.pdf'') demo_three) = Saved
   \<and> report (save_pdf lib_ok (Some ''a.pdf'') demo_three) = Saved
   \<and> map annot_core (persisted (save_pdf lib_flaky (Some ''a.pdf'') demo_three))
       = map annot_core (persisted (save_pdf lib_ok (Some ''a.pdf'') demo_three))
   \<and> persisted (save_pdf lib_flaky (Some ''a.pdf'') demo_three)
       = [\<lparr>a_page = 0, a_rect = (15, 192.5, 194.5, 207), a_text = [0x68, 0x69],
           border_width = Some 0, colors_cleared = False, opacity = None,
           default_appearance = Some (''helv'', 12, (0, 0, 0)), updated = True\<rparr>,
          \<lparr>a_page = 0, a_rect = (15, 292.5, 194.5, 307), a_text = [0x6E, 0x6F, 0x74, 0x65],
           border_width = Some 0, colors_cleared = False, opacity = None,
           default_appearance = Some (''helv'', 12, (0, 0, 0)), updated = True\<rparr>]"
proof -
  have l: "only_styles_fail lib_ok" by (simp add: only_styles_fail_def lib_ok_def)
  have z: "zoom demo_three \<noteq> 0" by (simp add: demo_three_facts)
  have helv: "qfont_to_pdf_basefont ''Arial'' = ''helv''"
    by (simp add: qfont_to_pdf_basefont_def lower_def any_in_def sublist_code)
  have ok: "report (save_pdf lib_ok (Some ''a.pdf'') demo_three) = Saved"
    by (simp add: save_pdf_ok[OF l z])
  have e: "map (\<lambda>(k, b). expected_annot lib_flaky demo_three k b) (enumerate 0 [0, 2])
       = [\<lparr>a_page = 0, a_rect = (15, 192.5, 194.5, 207), a_text = [0x68, 0x69],
           border_width = Some 0, colors_cleared = False, opacity = None,
           default_appearance = Some (''helv'', 12, (0, 0, 0)), updated = True\<rparr>,
          \<lparr>a_page = 0, a_rect = (15, 292.5, 194.5, 307), a_text = [0x6E, 0x6F, 0x74, 0x65],
           border_width = Some 0, colors_cleared = False, opacity = None,
           default_appearance = Some (''helv'', 12, (0, 0, 0)), updated = True\<rparr>]"
    by (simp add: enumerate_simps expected_annot_def Let_def demo_three_facts strip_examples
        geom_defs lib_flaky_def helv)
  note T = C9_style_failures_do_not_abort[where lib = lib_ok
        and f = "\<lambda>k c. c = SetColors \<or> c = SetOpacity"
        and path = "Some ''a.pdf''" and s = demo_three and p = "''a.pdf''"]
  have sf: "style_fails lib_flaky 0 SetColors" "style_fails lib_flaky 1 SetOpacity"
    by (simp_all add: lib_flaky_def)
  have pp: "Some ''a.pdf'' = Some ''a.pdf''" "''a.pdf'' \<noteq> []" by simp_all
  have r1: "report (save_pdf lib_flaky (Some ''a.pdf'') demo_three) = Saved"
    using T l z pp unfolding lib_flaky_def by blast
  have r2: "map annot_core (persisted (save_pdf lib_flaky (Some ''a.pdf'') demo_three))
       = map annot_core (persisted (save_pdf lib_ok (Some ''a.pdf'') demo_three))"
    using T unfolding lib_flaky_def by blast
  have r3: "persisted (save_pdf lib_flaky (Some ''a.pdf'') demo_three)
       = map (\<lambda>(k, b). expected_annot lib_flaky demo_three k b) (enumerate 0 [0, 2])"
    using T l z pp unfolding lib_flaky_def demo_three_saved by blast
  show ?thesis
    by (intro conjI) (rule l z sf r1 ok r2 r3[unfolded e])+
qed

subsection \<open>Restyle\<close>

text \<open>
  Claim C8, amended. \<^verbatim>\<open>set_font_settings\<close> always stores the new family and size as the
  page view's current font settings. With no box selected that is all it does: no command
  is pushed and the collection, the selection, the boxes and both stacks are unchanged.
  With box \<open>b\<close> selected it pushes exactly one command and runs it: the model of \<open>b\<close>
  takes the new family and size, keeps its page index, and takes rectangle and text from
  the live geometry and line-edit text of \<open>b\<close>; every other box, the collection and the
  selection are unchanged. When the geometry and line-edit text of \<open>b\<close> agree with its
  model, only the two font fields of the model change.
\<close>

theorem C8_restyle_amended:
  "(selected s = None \<longrightarrow>
      set_font_settings f n s = Returned (s\<lparr>current_qfont := f, current_fontsize := n\<rparr>))
   \<and> (selected s = Some b \<longrightarrow>
        (let s' = state_of (set_font_settings f n s); w = widgets s b;
             after = \<lparr>page_index = page_index (model w), rect_px = geometry w,
                      box_text = edit_text w, qfont = f, fontsize_pt = n\<rparr>
         in returned (set_font_settings f n s)
            \<and> current_qfont s' = f \<and> current_fontsize s' = n
            \<and> undo_list s' = undo_list s @ [ChangeFont (model w) after]
            \<and> redo_list s' = []
            \<and> boxes s' = boxes s \<and> selected s' = selected s
            \<and> model (widgets s' b) = after
            \<and> (\<forall>c. c \<noteq> b \<longrightarrow> widgets s' c = widgets s c)
            \<and> (geometry w = rect_px (model w) \<and> edit_text w = box_text (model w) \<longrightarrow>
                 model (widgets s' b) = (model w)\<lparr>qfont := f, fontsize_pt := n\<rparr>)))"
  by (auto simp: set_font_settings_def push_and_do_def update_widget_def set_model_def Let_def)

lemma demo_two_facts:
  "boxes demo_two = [0, Suc 0]" "selected demo_two = Some (Suc 0)"
  "model (widgets demo_two 0) = \<lparr>page_index = 0, rect_px = QRect_xywh 30 385 360 30,
      box_text = [0x68, 0x69], qfont = ''Arial'', fontsize_pt = 12\<rparr>"
  "model (widgets demo_two (Suc 0)) = \<lparr>page_index = 0, rect_px = QRect_xywh 30 485 360 30,
      box_text = [0x79, 0x6F], qfont = ''Arial'', fontsize_pt = 12\<rparr>"
  "geometry (widgets demo_two (Suc 0)) = QRect_xywh 30 485 360 30"
  "edit_text (widgets demo_two (Suc 0)) = [0x79, 0x6F]"
  "length (undo_list demo_two) = 4"
  by (simp_all add: demo_two_def demo_click_def op_defs geom_defs strip_def py_isspace_def)

theorem C8_restyle_amended_witness:
  "selected demo_page = None
   \<and> set_font_settings ''Courier New'' 20 demo_page
       = Returned (demo_page\<lparr>current_qfont := ''Courier New'', current_fontsize := 20\<rparr>)
   \<and> selected demo_two = Some 1
   \<and> geometry (widgets demo_two 1) = rect_px (model (widgets demo_two 1))
   \<and> edit_text (widgets demo_two 1) = box_text (model (widgets demo_two 1))
   \<and> returned (set_font_settings ''Courier New'' 20 demo_two)
   \<and> length (undo_list (state_of (set_font_settings ''Courier New'' 20 demo_two)))
       = Suc (length (undo_list demo_two))
   \<and> model (widgets (state_of (set_font_settings ''Courier New'' 20 demo_two)) 1)
       = \<lparr>page_index = 0, rect_px = QRect_xywh 30 485 360 30, box_text = [0x79, 0x6F],
          qfont = ''Courier New'', fontsize_pt = 20\<rparr>
   \<and> model (widgets (state_of (set_font_settings ''Courier New'' 20 demo_two)) 0)
       = model (widgets demo_two 0)"
proof -
  have n: "selected demo_page = None" by (simp add: op_defs)
  note T1 = C8_restyle_amended[where s = demo_page and f = "''Courier New''" and n = 20]
  note T2 = C8_restyle_amended[where s = demo_two and f = "''Courier New''" and n = 20
      and b = "Suc 0"]
  have a: "set_font_settings ''Courier New'' 20 demo_page
       = Returned (demo_page\<lparr>current_qfont := ''Courier New'', current_fontsize := 20\<rparr>)"
    using T1 n by blast
  show ?thesis
    using T2 n a by (simp add: demo_two_facts Let_def)
qed

text \<open>
  Claim C8 as stated fails twice. With nothing selected the state does change: the
  current font settings are replaced, and the next box created carries the new font.
  And with a box selected whose line edit holds \<open>yo\<close> and a blank while its model holds
  \<open>yo\<close>, the command changes the text field of the model as well.
\<close>

theorem C8_restyle_counterexample:
  "selected demo_page = None
   \<and> state_of (set_font_settings ''Courier New'' 20 demo_page) \<noteq> demo_page
   \<and> qfont (model (widgets (run [PvPress LeftButton (30, 400) None,
                                   PvRelease LeftButton (30, 400)] demo_page) 0)) = ''Arial''
   \<and> qfont (model (widgets (run [SetFontSettings ''Courier New'' 20,
                                   PvPress LeftButton (30, 400) None,
                                   PvRelease LeftButton (30, 400)] demo_page) 0)) = ''Courier New''
   \<and> selected demo_trailing = Some 1
   \<and> undo_list demo_trailing = undo_list demo_two
   \<and> box_text (model (widgets demo_trailing 1)) = [0x79, 0x6F]
   \<and> box_text (model (widgets (state_of (set_font_settings ''Courier New'' 20 demo_trailing)) 1))
       = [0x79, 0x6F, 0x20]"
proof -
  have "current_qfont (state_of (set_font_settings ''Courier New'' 20 demo_page))
          \<noteq> current_qfont demo_page"
    by (simp add: op_defs)
  then have ne: "state_of (set_font_settings ''Courier New'' 20 demo_page) \<noteq> demo_page"
    by auto
  have rest: "selected demo_page = None"
    "qfont (model (widgets (run [PvPress LeftButton (30, 400) None,
                                   PvRelease LeftButton (30, 400)] demo_page) 0)) = ''Arial''"
    "qfont (model (widgets (run [SetFontSettings ''Courier New'' 20,
                                   PvPress LeftButton (30, 400) None,
                                   PvRelease LeftButton (30, 400)] demo_page) 0)) = ''Courier New''"
    by (simp_all add: op_defs geom_defs)
  have tr: "selected demo_trailing = Some 1"
    "undo_list demo_trailing = undo_list demo_two"
    "box_text (model (widgets demo_trailing 1)) = [0x79, 0x6F]"
    "box_text (model (widgets (state_of (set_font_settings ''Courier New'' 20 demo_trailing)) 1))
       = [0x79, 0x6F, 0x20]"
    by (simp_all add: demo_trailing_def demo_two_def demo_click_def op_defs geom_defs strip_def
        py_isspace_def)
  show ?thesis using ne rest tr by blast
qed

subsection \<open>Undo after a sequence of edit operations\<close>

lemma other_fields_hide_and_deselect:
  "undo_list (hide_and_deselect b s) = undo_list s"
  "redo_list (hide_and_deselect b s) = redo_list s"
  "next_id (hide_and_deselect b s) = next_id s"
  by (simp_all add: hide_and_deselect_def Let_def update_widget_def)

lemma model_setVisible [simp]: "model (setVisible v w) = model w"
  by (simp add: setVisible_def)

lemma model_set_model [simp]: "model (set_model m w) = m"
  by (simp add: set_model_def)

lemma restores_refl: "restores s s"
  by (simp add: restores_def)

lemma restores_trans: "restores s s1 \<Longrightarrow> restores s1 t \<Longrightarrow> restores s t"
  by (auto simp: restores_def)

text \<open>
  Undoing the command on top of the stack, in any state that has the collection, models
  and stack the push left behind, gives back the collection, models and stack from
  before the push.
\<close>

lemma undo_pushed:
  assumes "pushed s c s1" and "restores s1 t"
  shows "\<exists>t'. undo t = Returned t' \<and> restores s t'"
proof (cases c)
  case (AddBox b)
  with assms have u: "undo_list t = undo_list s @ [AddBox b]" and bx: "boxes t = boxes s @ [b]"
    and nb: "b \<notin> set (boxes s)" and n: "next_id s \<le> next_id t"
    and m: "\<forall>d. d < next_id s \<longrightarrow> model (widgets t d) = model (widgets s d)"
    by (auto simp: restores_def)
  have "remove1 b (boxes s @ [b]) = boxes s" using nb by (simp add: remove1_append)
  then show ?thesis
    using u bx n m
    by (simp add: undo_def restores_def boxes_hide_and_deselect widgets_hide_and_deselect
        other_fields_hide_and_deselect)
next
  case (UpdateBox b before after)
  with assms show ?thesis
    by (auto simp: undo_def restores_def update_widget_def)
next
  case (ChangeFont before after)
  with assms show ?thesis by simp
next
  case (DeleteBox b idx m)
  with assms have u: "undo_list t = undo_list s @ [DeleteBox b idx m]"
    and bx: "boxes t = remove1 b (boxes s)" and i: "list_index b (boxes s) = Some idx"
    and mm: "m = model (widgets s b)" and n: "next_id s \<le> next_id t"
    and md: "\<forall>d. d < next_id s \<and> d \<noteq> b \<longrightarrow> model (widgets t d) = model (widgets s d)"
    by (auto simp: restores_def)
  show ?thesis
    using u bx mm n md list_insert_remove1[OF i]
    by (simp add: undo_def restores_def update_widget_def)
qed


lemma place_box_pushed:
  assumes "boxes_allocated s"
  shows "pushed s (AddBox (next_id s)) (state_of (place_box r s))
         \<and> boxes_allocated (state_of (place_box r s))"
proof -
  have "next_id s \<notin> set (boxes s)" using assms by (auto simp: boxes_allocated_def)
  then show ?thesis using assms
    by (auto simp: place_box_def push_and_do_def update_widget_def Let_def boxes_allocated_def)
qed

lemma request_delete_pushed:
  assumes "boxes_allocated s"
  shows "boxes_allocated (state_of (request_delete b s))
         \<and> (restores s (state_of (request_delete b s))
            \<or> (\<exists>c. pushed s c (state_of (request_delete b s))))"
proof (cases "b \<in> set (boxes s)")
  case False
  then show ?thesis using assms by (simp add: request_delete_def restores_refl)
next
  case True
  then obtain idx where i: "list_index b (boxes s) = Some idx"
    using list_index_Some by fastforce
  have p: "pushed s (DeleteBox b idx (model (widgets s b))) (state_of (request_delete b s))"
    using i
    by (simp add: request_delete_in[OF i] boxes_hide_and_deselect widgets_hide_and_deselect
        other_fields_hide_and_deselect)
  have "boxes_allocated (state_of (request_delete b s))"
    using assms
    by (auto simp: request_delete_in[OF i] boxes_allocated_def boxes_hide_and_deselect
        other_fields_hide_and_deselect dest: notin_set_remove1)
  with p show ?thesis by blast
qed

lemma commit_pushed:
  assumes "boxes_allocated s"
    and "boxes s0 = boxes s" and "undo_list s0 = undo_list s" and "next_id s0 = next_id s"
    and "\<forall>d. model (widgets s0 d) = model (widgets s d)"
  shows "pushed s (UpdateBox b (model (widgets s b)) after)
           (state_of (on_change_commit b (model (widgets s0 b)) after
              (update_widget b (\<lambda>w. w\<lparr>model := after\<rparr>) s0)))
         \<and> boxes_allocated (state_of (on_change_commit b (model (widgets s0 b)) after
              (update_widget b (\<lambda>w. w\<lparr>model := after\<rparr>) s0)))"
  using assms
  by (auto simp: on_change_commit_def push_and_do_def update_widget_def boxes_allocated_def)

lemma model_set_visibility: "model (set_visibility pidx bs ws d) = model (ws d)"
  by (induction bs arbitrary: ws) auto

lemma create_box_pushed:
  assumes "boxes_allocated s"
    and "boxes s0 = boxes s" and "undo_list s0 = undo_list s" and "next_id s0 = next_id s"
    and "widgets s0 = widgets s"
  shows "boxes_allocated (state_of (create_box rect tad s0))
         \<and> (restores s (state_of (create_box rect tad s0))
            \<or> (\<exists>c. pushed s c (state_of (create_box rect tad s0))))"
proof -
  have a0: "boxes_allocated s0" using assms by (simp add: boxes_allocated_def)
  show ?thesis
  proof (cases "create_box_rect (image_w_px s0) (image_h_px s0) (default_click_w s0)
                  (default_click_h s0) rect tad")
    case None
    then show ?thesis using assms by (simp add: create_box_def restores_def boxes_allocated_def)
  next
    case (Some r)
    have "pushed s0 (AddBox (next_id s0)) (state_of (place_box r s0))"
      and b: "boxes_allocated (state_of (place_box r s0))"
      using place_box_pushed[OF a0] by auto
    then have "pushed s (AddBox (next_id s0)) (state_of (place_box r s0))"
      using assms by simp
    with b show ?thesis using Some by (auto simp: create_box_def simp del: pushed.simps)
  qed
qed

lemma commit_geom_change_pushed:
  assumes "boxes_allocated s"
    and "boxes s0 = boxes s" and "undo_list s0 = undo_list s" and "next_id s0 = next_id s"
    and "\<forall>d. model (widgets s0 d) = model (widgets s d)"
  shows "(\<exists>c. pushed s c (state_of (commit_geom_change b s0)))
         \<and> boxes_allocated (state_of (commit_geom_change b s0))"
  unfolding commit_geom_change_def Let_def
  using commit_pushed[OF assms] by blast

text \<open>
  Every edit event either leaves collection, models and stack as they are, or pushes one
  command that is not a font change.
\<close>

lemma step_edit:
  assumes "edit_event e" and "boxes_allocated s"
  shows "boxes_allocated (state_of (step e s))
         \<and> (restores s (state_of (step e s)) \<or> (\<exists>c. pushed s c (state_of (step e s))))"
proof (cases e)
  case (PvPress btn pos hit)
  then show ?thesis using assms(2)
    by (auto simp: pv_mousePressEvent_def restores_def boxes_allocated_def split: option.splits)
next
  case (PvRelease btn pos)
  show ?thesis
  proof (cases "dragging s \<and> btn = LeftButton")
    case True
    then show ?thesis
      using PvRelease create_box_pushed[OF assms(2), of "s\<lparr>dragging := False\<rparr>"]
      by (simp add: pv_mouseReleaseEvent_def)
  next
    case False
    then show ?thesis using PvRelease assms(2)
      by (auto simp: pv_mouseReleaseEvent_def restores_refl)
  qed
next
  case SpawnDefault
  show ?thesis
    using SpawnDefault assms(2) create_box_pushed[OF assms(2), of s]
    by (auto simp: spawn_default_box_left_middle_def Let_def restores_refl)
next
  case (AddAtClick pos)
  show ?thesis
  proof (cases "click_rect (image_w_px s) (image_h_px s) (default_click_w s)
                  (default_click_h s) pos")
    case None
    then show ?thesis using AddAtClick assms(2) by (simp add: add_box_at_click_def restores_refl)
  next
    case (Some r)
    then show ?thesis using AddAtClick place_box_pushed[OF assms(2), of r]
      by (auto simp: add_box_at_click_def simp del: pushed.simps)
  qed
next
  case (TbPress b btn pos gpos)
  then show ?thesis using assms(2)
    by (auto simp: tb_mousePressEvent_def on_selected_def update_widget_def Let_def
        restores_def boxes_allocated_def)
next
  case (TbMove b gpos)
  then show ?thesis using assms(2)
    by (auto simp: tb_mouseMoveEvent_def update_widget_def Let_def restores_def
        boxes_allocated_def)
next
  case (TbRelease b btn)
  let ?r = "update_widget b (\<lambda>w. w\<lparr>resizing := False\<rparr>) s"
  let ?m = "update_widget b (\<lambda>w. w\<lparr>moving := False\<rparr>) s"
  have r: "boxes ?r = boxes s" "undo_list ?r = undo_list s" "next_id ?r = next_id s"
    "\<forall>d. model (widgets ?r d) = model (widgets s d)"
    by (simp_all add: update_widget_def)
  have m: "boxes ?m = boxes s" "undo_list ?m = undo_list s" "next_id ?m = next_id s"
    "\<forall>d. model (widgets ?m d) = model (widgets s d)"
    by (simp_all add: update_widget_def)
  consider "btn = LeftButton \<and> resizing (widgets s b)"
    | "btn = LeftButton \<and> \<not> resizing (widgets s b) \<and> moving (widgets s b)"
    | "btn \<noteq> LeftButton \<or> (\<not> resizing (widgets s b) \<and> \<not> moving (widgets s b))"
    by blast
  then show ?thesis
  proof cases
    case 1
    then have "step e s = commit_geom_change b ?r"
      using TbRelease by (simp add: tb_mouseReleaseEvent_def)
    then show ?thesis using commit_geom_change_pushed[OF assms(2) r, of b] by simp
  next
    case 2
    then have "step e s = commit_geom_change b ?m"
      using TbRelease by (simp add: tb_mouseReleaseEvent_def)
    then show ?thesis using commit_geom_change_pushed[OF assms(2) m, of b] by simp
  next
    case 3
    then have "step e s = Returned s"
      using TbRelease by (auto simp: tb_mouseReleaseEvent_def)
    then show ?thesis using assms(2) by (simp add: restores_refl)
  qed
next
  case (Types b t)
  then show ?thesis using assms(2)
    by (auto simp: user_types_def update_widget_def restores_def boxes_allocated_def)
next
  case (EditingFinished b)
  have s: "boxes s = boxes s" "undo_list s = undo_list s" "next_id s = next_id s"
    "\<forall>d. model (widgets s d) = model (widgets s d)"
    by simp_all
  let ?txt = "strip (edit_text (widgets s b))"
  consider "?txt = []" | "?txt \<noteq> [] \<and> ?txt \<noteq> box_text (model (widgets s b))"
    | "?txt \<noteq> [] \<and> ?txt = box_text (model (widgets s b))"
    by blast
  then show ?thesis
  proof cases
    case 1
    then have "step e s = request_delete b s"
      using EditingFinished by (simp add: on_editing_finished_def Let_def)
    then show ?thesis using request_delete_pushed[OF assms(2), of b] by simp
  next
    case 2
    let ?after = "\<lparr>page_index = page_index (model (widgets s b)),
                   rect_px = geometry (widgets s b), box_text = ?txt,
                   qfont = qfont (model (widgets s b)),
                   fontsize_pt = fontsize_pt (model (widgets s b))\<rparr>"
    have "step e s = on_change_commit b (model (widgets s b)) ?after
                       (update_widget b (\<lambda>w. w\<lparr>model := ?after\<rparr>) s)"
      using 2 EditingFinished by (simp add: on_editing_finished_def Let_def)
    then show ?thesis using commit_pushed[OF assms(2) s, of b ?after] by metis
  next
    case 3
    then have "step e s = Returned s"
      using EditingFinished by (auto simp: on_editing_finished_def Let_def)
    then show ?thesis using assms(2) by (simp add: restores_refl)
  qed
next
  case (RequestDelete b)
  then show ?thesis using request_delete_pushed[OF assms(2), of b] by simp
next
  case (FocusIn b)
  then show ?thesis using assms(2)
    by (auto simp: on_selected_def restores_def boxes_allocated_def)
next
  case (SetTextTool enabled)
  then show ?thesis using assms(2)
    by (auto simp: set_text_tool_def Let_def restores_def boxes_allocated_def)
next
  case (SetFontSettings f n)
  then show ?thesis using assms(1) by simp
next
  case (SetRenderedPage qpix pidx z)
  then show ?thesis using assms(2)
    by (auto simp: set_rendered_page_def Let_def restores_def boxes_allocated_def
        model_set_visibility)
next
  case Undo
  then show ?thesis using assms(1) by simp
next
  case Redo
  then show ?thesis using assms(1) by simp
qed


lemma step_edit_length:
  assumes "edit_event e" and "boxes_allocated s"
  shows "(restores s (state_of (step e s))
            \<and> length (undo_list (state_of (step e s))) = length (undo_list s))
         \<or> ((\<exists>c. pushed s c (state_of (step e s)))
            \<and> length (undo_list (state_of (step e s))) = Suc (length (undo_list s)))"
proof -
  from step_edit[OF assms] consider "restores s (state_of (step e s))"
    | c where "pushed s c (state_of (step e s))" by blast
  then show ?thesis
  proof cases
    case 1
    then show ?thesis by (simp add: restores_def)
  next
    case 2
    then have "length (undo_list (state_of (step e s))) = Suc (length (undo_list s))"
      by (cases c) auto
    with 2 show ?thesis by blast
  qed
qed

lemma run_edit_grows:
  assumes "\<forall>e \<in> set es. edit_event e" and "boxes_allocated s"
  shows "length (undo_list s) \<le> length (undo_list (run es s))"
  using assms
proof (induction es arbitrary: s)
  case Nil
  then show ?case by simp
next
  case (Cons e es)
  have e: "edit_event e" using Cons.prems(1) by simp
  have a: "boxes_allocated (state_of (step e s))" using step_edit[OF e Cons.prems(2)] by simp
  have "length (undo_list (state_of (step e s))) \<le> length (undo_list (run es (state_of (step e s))))"
    using Cons.IH[OF _ a] Cons.prems(1) by simp
  moreover have "length (undo_list s) \<le> length (undo_list (state_of (step e s)))"
    using step_edit_length[OF e Cons.prems(2)] by auto
  ultimately show ?case by simp
qed

lemma run_edit_undo:
  assumes "\<forall>e \<in> set es. edit_event e" and "boxes_allocated s"
  shows "\<exists>t. undo_times (length (undo_list (run es s)) - length (undo_list s)) (run es s)
               = Returned t \<and> restores s t"
  using assms
proof (induction es arbitrary: s)
  case Nil
  then show ?case by (simp add: restores_refl)
next
  case (Cons e es)
  let ?s1 = "state_of (step e s)"
  have e: "edit_event e" and es: "\<forall>e \<in> set es. edit_event e" using Cons.prems(1) by simp_all
  have a: "boxes_allocated ?s1" using step_edit[OF e Cons.prems(2)] by simp
  let ?k = "length (undo_list (run es ?s1)) - length (undo_list ?s1)"
  from Cons.IH[OF es a] obtain t1 where
    t1: "undo_times ?k (run es ?s1) = Returned t1" and r1: "restores ?s1 t1" by blast
  have g: "length (undo_list ?s1) \<le> length (undo_list (run es ?s1))"
    by (rule run_edit_grows[OF es a])
  from step_edit_length[OF e Cons.prems(2)] show ?case
  proof
    assume h: "restores s ?s1 \<and> length (undo_list ?s1) = length (undo_list s)"
    then have "restores s t1" using r1 restores_trans by blast
    then show ?thesis using t1 h by auto
  next
    assume h: "(\<exists>c. pushed s c ?s1) \<and> length (undo_list ?s1) = Suc (length (undo_list s))"
    then obtain c where c: "pushed s c ?s1" by blast
    from undo_pushed[OF c r1] obtain t' where t': "undo t1 = Returned t'" "restores s t'"
      by blast
    have k: "length (undo_list (run (e # es) s)) - length (undo_list s) = Suc ?k"
      using h g by simp
    show ?thesis unfolding k using t1 t' by auto
  qed
qed


lemma run_edit_prefix:
  assumes "\<forall>e \<in> set es. edit_event e" and "boxes_allocated s"
  shows "prefix (undo_list s) (undo_list (run es s))"
  using assms
proof (induction es arbitrary: s)
  case Nil
  then show ?case by simp
next
  case (Cons e es)
  have e: "edit_event e" and es: "\<forall>e \<in> set es. edit_event e" using Cons.prems(1) by simp_all
  from step_edit[OF e Cons.prems(2)]
  have a: "boxes_allocated (state_of (step e s))"
    and d: "restores s (state_of (step e s)) \<or> (\<exists>c. pushed s c (state_of (step e s)))"
    by auto
  have "prefix (undo_list s) (undo_list (state_of (step e s)))"
    using d
  proof
    assume "restores s (state_of (step e s))"
    then show ?thesis by (simp add: restores_def)
  next
    assume "\<exists>c. pushed s c (state_of (step e s))"
    then obtain c where "pushed s c (state_of (step e s))" by blast
    then show ?thesis by (cases c) auto
  qed
  then show ?case using Cons.IH[OF es a] by (auto intro: prefix_order.order_trans)
qed

text \<open>
  Claim C1, amended. From a state whose boxes are allocated widgets (as in every
  reachable state, see \<open>reachable_distinct_allocated\<close> below), run any sequence of
  events other than font changes, undo and redo: placing boxes by click, drag or tool
  button, move and resize gestures, typing and the end of editing, delete requests (and
  selection, tool and rendering events, which push nothing). The commands pushed lie on
  top of the old stack. Calling \<^verbatim>\<open>undo()\<close> once per command pushed raises nothing and
  leads to a state with the boxes of the initial collection in the initial order, each
  with its initial model (page index, rectangle, text, font family, font size), and with
  the initial applied stack. The selection is not part of what is restored.
\<close>

theorem C1_undo_roundtrip_amended:
  assumes "\<forall>e \<in> set es. edit_event e" and "boxes_allocated s"
  shows "let s' = run es s;
             n = length (undo_list s') - length (undo_list s);
             r = undo_times n s'
         in prefix (undo_list s) (undo_list s')
            \<and> returned r
            \<and> boxes (state_of r) = boxes s
            \<and> (\<forall>b \<in> set (boxes s). model (widgets (state_of r) b) = model (widgets s b))
            \<and> undo_list (state_of r) = undo_list s"
proof -
  from run_edit_undo[OF assms] obtain t where
    t: "undo_times (length (undo_list (run es s)) - length (undo_list s)) (run es s) = Returned t"
    and r: "restores s t" by blast
  have "\<forall>b \<in> set (boxes s). model (widgets t b) = model (widgets s b)"
    using r assms(2) by (auto simp: restores_def boxes_allocated_def)
  then show ?thesis
    using t r run_edit_prefix[OF assms] by (simp add: Let_def restores_def)
qed

lemma demo_two_next: "next_id demo_two = 2"
  by (simp add: demo_two_def demo_click_def op_defs geom_defs strip_def py_isspace_def)

lemma demo_edits_run:
  "boxes (run demo_edits demo_two) = [0, 2]"
  "length (undo_list (run demo_edits demo_two)) = 8"
  "rect_px (model (widgets (run demo_edits demo_two) 0)) = QRect_xywh 40 425 360 30"
  by (simp_all add: demo_edits_def demo_two_def demo_click_def op_defs geom_defs strip_def
      py_isspace_def numeral_2_eq_2)

theorem C1_undo_roundtrip_amended_witness:
  "list_all edit_event demo_edits \<and> boxes_allocated demo_two
   \<and> boxes demo_two = [0, 1]
   \<and> boxes (run demo_edits demo_two) = [0, 2]
   \<and> rect_px (model (widgets (run demo_edits demo_two) 0)) = QRect_xywh 40 425 360 30
   \<and> length (undo_list (run demo_edits demo_two)) - length (undo_list demo_two) = 4
   \<and> returned (undo_times 4 (run demo_edits demo_two))
   \<and> boxes (state_of (undo_times 4 (run demo_edits demo_two))) = [0, 1]
   \<and> model (widgets (state_of (undo_times 4 (run demo_edits demo_two))) 0)
       = model (widgets demo_two 0)
   \<and> model (widgets (state_of (undo_times 4 (run demo_edits demo_two))) 1)
       = model (widgets demo_two 1)
   \<and> undo_list (state_of (undo_times 4 (run demo_edits demo_two))) = undo_list demo_two"
proof -
  have e: "\<forall>e \<in> set demo_edits. edit_event e" by (simp add: demo_edits_def)
  have le: "list_all edit_event demo_edits" by (simp add: demo_edits_def)
  have a: "boxes_allocated demo_two"
    by (simp add: boxes_allocated_def demo_two_facts demo_two_next)
  have n: "length (undo_list (run demo_edits demo_two)) - length (undo_list demo_two) = 4"
    by (simp add: demo_edits_run demo_two_facts)
  show ?thesis
    using C1_undo_roundtrip_amended[OF e a] le a
    by (simp add: Let_def n demo_two_facts demo_edits_run)
qed


lemma demo_restyle_then_move_run:
  "length (undo_list (run demo_restyle_then_move demo_two)) = 6"
  "returned (undo_times 2 (run demo_restyle_then_move demo_two))"
  "boxes (state_of (undo_times 2 (run demo_restyle_then_move demo_two))) = [0, 1]"
  "model (widgets (state_of (undo_times 2 (run demo_restyle_then_move demo_two))) 0)
     = \<lparr>page_index = 0, rect_px = QRect_xywh 30 485 360 30,
        box_text = [0x79, 0x6F], qfont = ''Arial'', fontsize_pt = 12\<rparr>"
  "model (widgets (state_of (undo_times 2 (run demo_restyle_then_move demo_two))) (Suc 0))
     = \<lparr>page_index = 0, rect_px = QRect_xywh 30 485 360 30,
        box_text = [0x79, 0x6F], qfont = ''Courier New'', fontsize_pt = 20\<rparr>"
  by (simp_all add: demo_restyle_then_move_def demo_two_def demo_click_def op_defs geom_defs
      strip_def py_isspace_def numeral_2_eq_2)

lemma demo_one_facts:
  "boxes demo_one = [0]" "selected demo_one = Some 0" "length (undo_list demo_one) = 2"
  "model (widgets demo_one 0) = \<lparr>page_index = 0, rect_px = QRect_xywh 30 385 360 30,
      box_text = [0x68, 0x69], qfont = ''Arial'', fontsize_pt = 12\<rparr>"
  by (simp_all add: demo_one_def demo_click_def op_defs geom_defs strip_def py_isspace_def)

lemma demo_restyle_then_create_run:
  "length (undo_list (run demo_restyle_then_create demo_one)) = 4"
  "raised (undo_times 2 (run demo_restyle_then_create demo_one)) = Some AttributeError"
  "boxes (state_of (undo_times 2 (run demo_restyle_then_create demo_one))) = [0]"
  "model (widgets (state_of (undo_times 2 (run demo_restyle_then_create demo_one))) 0)
     = \<lparr>page_index = 0, rect_px = QRect_xywh 30 385 360 30,
        box_text = [0x68, 0x69], qfont = ''Courier New'', fontsize_pt = 20\<rparr>"
  by (simp_all add: demo_restyle_then_create_def demo_one_def demo_click_def op_defs geom_defs
      strip_def py_isspace_def numeral_2_eq_2)

lemma demo_delete_undo_selection:
  "boxes (state_of (undo (state_of (request_delete (Suc 0) demo_two)))) = [0, Suc 0]"
  "selected (state_of (undo (state_of (request_delete (Suc 0) demo_two)))) = None"
  by (simp_all add: demo_two_def demo_click_def op_defs geom_defs strip_def py_isspace_def)

text \<open>
  Claim C1 as stated fails. On the two-box page with the second box selected, restyle
  and then drag the first box: undoing both commands returns normally, but the font
  change is undone on the box selected by then, the first, which receives the former
  model of the second, while the second keeps the new font. On the one-box page, restyle
  and then place a second box: the first undo clears the selection and the second
  raises \<^verbatim>\<open>AttributeError\<close>, the font staying changed. And deleting the selected box and
  undoing restores the collection but leaves nothing selected.
\<close>

theorem C1_undo_roundtrip_counterexample:
  "length (undo_list (run demo_restyle_then_move demo_two)) = length (undo_list demo_two) + 2
   \<and> returned (undo_times 2 (run demo_restyle_then_move demo_two))
   \<and> model (widgets (state_of (undo_times 2 (run demo_restyle_then_move demo_two))) 0)
       \<noteq> model (widgets demo_two 0)
   \<and> model (widgets (state_of (undo_times 2 (run demo_restyle_then_move demo_two))) 0)
       = model (widgets demo_two 1)
   \<and> qfont (model (widgets demo_two 1)) = ''Arial''
   \<and> qfont (model (widgets (state_of (undo_times 2 (run demo_restyle_then_move demo_two))) 1))
       = ''Courier New''
   \<and> length (undo_list (run demo_restyle_then_create demo_one))
       = length (undo_list demo_one) + 2
   \<and> raised (undo_times 2 (run demo_restyle_then_create demo_one)) = Some AttributeError
   \<and> qfont (model (widgets demo_one 0)) = ''Arial''
   \<and> qfont (model (widgets (state_of (undo_times 2 (run demo_restyle_then_create demo_one))) 0))
       = ''Courier New''
   \<and> selected demo_two = Some 1
   \<and> boxes (state_of (undo (state_of (request_delete 1 demo_two)))) = boxes demo_two
   \<and> selected (state_of (undo (state_of (request_delete 1 demo_two)))) = None"
  by (simp add: demo_restyle_then_move_run demo_restyle_then_create_run demo_one_facts
      demo_two_facts demo_delete_undo_selection)

subsection \<open>Reachable states are well-formed\<close>

lemma cmd_allocated_mono: "cmd_allocated n c \<Longrightarrow> n \<le> n' \<Longrightarrow> cmd_allocated n' c"
  by (cases c) auto

lemma list_all_cmd_allocated_mono:
  "list_all (cmd_allocated n) cs \<Longrightarrow> n \<le> n' \<Longrightarrow> list_all (cmd_allocated n') cs"
  by (induction cs) (auto intro: cmd_allocated_mono)

lemma set_list_insert: "set (list_insert i x xs) = insert x (set xs)"
proof -
  have "set (take i xs) \<union> set (drop i xs) = set xs"
    by (metis append_take_drop_id set_append)
  then show ?thesis by (auto simp: list_insert_def)
qed

lemma distinct_list_insert: "distinct xs \<Longrightarrow> x \<notin> set xs \<Longrightarrow> distinct (list_insert i x xs)"
proof -
  assume d: "distinct xs" and x: "x \<notin> set xs"
  have "distinct (take i xs) \<and> distinct (drop i xs)
          \<and> set (take i xs) \<inter> set (drop i xs) = {}"
    using d distinct_append[of "take i xs" "drop i xs"] by simp
  moreover have "x \<notin> set (take i xs)" "x \<notin> set (drop i xs)"
    using x by (auto dest: in_set_takeD in_set_dropD)
  ultimately show ?thesis by (auto simp: list_insert_def)
qed

text \<open>A state that differs from a well-formed one in other fields only is well-formed.\<close>

lemma wellformed_cong:
  assumes "wellformed s"
    and "boxes t = boxes s" and "undo_list t = undo_list s" and "redo_list t = redo_list s"
    and "next_id t = next_id s"
  shows "wellformed t"
  using assms by (simp add: wellformed_def boxes_allocated_def)

lemma wellformed_update_widget [simp]:
  "wellformed (update_widget b f s) = wellformed s"
  by (simp add: wellformed_def boxes_allocated_def update_widget_def)

lemma push_AddBox_wellformed:
  assumes "wellformed s" and "next_id s \<le> n"
  shows "wellformed (state_of (push_and_do (AddBox (next_id s))
           (s\<lparr>widgets := ws, next_id := Suc n\<rparr>)))"
proof -
  have f: "next_id s \<notin> set (boxes s)" using assms by (auto simp: wellformed_def boxes_allocated_def)
  have "list_all (cmd_allocated (Suc n)) (undo_list s)"
    using assms list_all_cmd_allocated_mono[of "next_id s" "undo_list s" "Suc n"]
    by (simp add: wellformed_def)
  then show ?thesis
    using assms f
    by (auto simp: push_and_do_def update_widget_def wellformed_def boxes_allocated_def)
qed

lemma place_box_wellformed:
  assumes "wellformed s"
  shows "wellformed (state_of (place_box r s))"
  unfolding place_box_def Let_def
  using push_AddBox_wellformed[OF assms, of "next_id s"] by simp

lemma push_UpdateBox_wellformed:
  assumes "wellformed s"
  shows "wellformed (state_of (push_and_do (UpdateBox b before after) s))"
  using assms by (simp add: push_and_do_def update_widget_def wellformed_def boxes_allocated_def)

lemma request_delete_wellformed:
  assumes "wellformed s"
  shows "wellformed (state_of (request_delete b s))"
proof (cases "b \<in> set (boxes s)")
  case False
  then show ?thesis using assms by (simp add: request_delete_def)
next
  case True
  then obtain idx where i: "list_index b (boxes s) = Some idx"
    using list_index_Some by fastforce
  have d: "distinct (boxes s)" and a: "b < next_id s"
    using assms True by (auto simp: wellformed_def boxes_allocated_def)
  have "insert b (set (boxes s) - {b}) = set (boxes s)" using True by auto
  then show ?thesis
    using assms True d a
    by (auto simp: request_delete_in[OF i] wellformed_def boxes_allocated_def
        boxes_hide_and_deselect other_fields_hide_and_deselect)
qed

lemma set_font_settings_wellformed:
  assumes "wellformed s"
  shows "wellformed (state_of (set_font_settings f n s))"
  using assms
  by (auto simp: set_font_settings_def Let_def push_and_do_def update_widget_def wellformed_def
      boxes_allocated_def split: option.splits)


lemma undo_wellformed:
  assumes "wellformed s"
  shows "wellformed (state_of (undo s))"
proof (cases "undo_list s = []")
  case True
  then show ?thesis using assms by (simp add: undo_def)
next
  case False
  then obtain us c where u: "undo_list s = us @ [c]" by (metis rev_exhaust)
  from assms u have d: "distinct (boxes s)" and al: "boxes_allocated s"
    and la: "list_all (cmd_allocated (next_id s)) us" and ca: "cmd_allocated (next_id s) c"
    and lr: "list_all (cmd_allocated (next_id s)) (redo_list s)"
    and uf: "undo_fits (set (boxes s)) (c # rev us)"
    and rf: "redo_fits (set (boxes s)) (rev (redo_list s))"
    by (auto simp: wellformed_def)
  show ?thesis
  proof (cases c)
    case (AddBox b)
    have m: "b \<in> set (boxes s)" and uf': "undo_fits (set (boxes s) - {b}) (rev us)"
      using uf AddBox by auto
    have "insert b (set (boxes s) - {b}) = set (boxes s)" using m by auto
    then show ?thesis
      using u AddBox d al la ca lr uf' rf
      by (auto simp: undo_def wellformed_def boxes_allocated_def boxes_hide_and_deselect
          other_fields_hide_and_deselect dest: notin_set_remove1)
  next
    case (UpdateBox b before after)
    then show ?thesis
      using u d al la lr uf rf
      by (simp add: undo_def wellformed_def boxes_allocated_def update_widget_def)
  next
    case (ChangeFont before after)
    then show ?thesis
      using u d al la lr uf rf
      by (auto simp: undo_def wellformed_def boxes_allocated_def update_widget_def
          split: option.splits)
  next
    case (DeleteBox b idx m)
    have nm: "b \<notin> set (boxes s)" and uf': "undo_fits (insert b (set (boxes s))) (rev us)"
      using uf DeleteBox by auto
    have "insert b (set (boxes s)) - {b} = set (boxes s)" using nm by auto
    then show ?thesis
      using u DeleteBox d al la ca lr uf' rf nm
      by (auto simp: undo_def wellformed_def boxes_allocated_def update_widget_def
          set_list_insert distinct_list_insert)
  qed
qed

lemma redo_wellformed:
  assumes "wellformed s"
  shows "wellformed (state_of (redo s))"
proof (cases "redo_list s = []")
  case True
  then show ?thesis using assms by (simp add: redo_def)
next
  case False
  then obtain rs c where u: "redo_list s = rs @ [c]" by (metis rev_exhaust)
  from assms u have d: "distinct (boxes s)" and al: "boxes_allocated s"
    and la: "list_all (cmd_allocated (next_id s)) rs" and ca: "cmd_allocated (next_id s) c"
    and lu: "list_all (cmd_allocated (next_id s)) (undo_list s)"
    and rf: "redo_fits (set (boxes s)) (c # rev rs)"
    and uf: "undo_fits (set (boxes s)) (rev (undo_list s))"
    by (auto simp: wellformed_def)
  show ?thesis
  proof (cases c)
    case (AddBox b)
    have nm: "b \<notin> set (boxes s)" and rf': "redo_fits (insert b (set (boxes s))) (rev rs)"
      using rf AddBox by auto
    have "insert b (set (boxes s)) - {b} = set (boxes s)" using nm by auto
    then show ?thesis
      using u AddBox d al la ca lu uf rf' nm
      by (auto simp: redo_def wellformed_def boxes_allocated_def update_widget_def)
  next
    case (UpdateBox b before after)
    then show ?thesis
      using u d al la lu uf rf
      by (simp add: redo_def wellformed_def boxes_allocated_def update_widget_def)
  next
    case (ChangeFont before after)
    then show ?thesis
      using u d al la lu uf rf
      by (auto simp: redo_def wellformed_def boxes_allocated_def update_widget_def
          split: option.splits)
  next
    case (DeleteBox b idx m)
    have m: "b \<in> set (boxes s)" and rf': "redo_fits (set (boxes s) - {b}) (rev rs)"
      using rf DeleteBox by auto
    have "insert b (set (boxes s) - {b}) = set (boxes s)" using m by auto
    then show ?thesis
      using u DeleteBox d al la ca lu uf rf' m
      by (auto simp: redo_def wellformed_def boxes_allocated_def boxes_hide_and_deselect
          other_fields_hide_and_deselect dest: notin_set_remove1)
  qed
qed


lemma create_box_wellformed:
  assumes "wellformed s"
  shows "wellformed (state_of (create_box rect tad s))"
  using assms place_box_wellformed
  by (auto simp: create_box_def split: option.splits)

lemma commit_wellformed:
  assumes "wellformed s"
  shows "wellformed (state_of (on_change_commit b before after s))"
  unfolding on_change_commit_def by (rule push_UpdateBox_wellformed[OF assms])

lemma step_wellformed:
  assumes "wellformed s"
  shows "wellformed (state_of (step e s))"
proof (cases e)
  case (PvPress btn pos hit)
  then show ?thesis
    by (auto simp: pv_mousePressEvent_def split: option.splits
        intro: wellformed_cong[OF assms])
next
  case (PvRelease btn pos)
  have "wellformed (s\<lparr>dragging := False\<rparr>)" by (rule wellformed_cong[OF assms]) simp_all
  then show ?thesis using PvRelease assms create_box_wellformed
    by (simp add: pv_mouseReleaseEvent_def)
next
  case SpawnDefault
  then show ?thesis using assms create_box_wellformed
    by (simp add: spawn_default_box_left_middle_def Let_def)
next
  case (AddAtClick pos)
  then show ?thesis using assms place_box_wellformed
    by (auto simp: add_box_at_click_def split: option.splits)
next
  case (TbPress b btn pos gpos)
  have "wellformed (on_selected b s)"
    unfolding on_selected_def by (rule wellformed_cong[OF assms]) simp_all
  then show ?thesis using TbPress assms by (simp add: tb_mousePressEvent_def Let_def)
next
  case (TbMove b gpos)
  then show ?thesis using assms by (simp add: tb_mouseMoveEvent_def Let_def)
next
  case (TbRelease b btn)
  then show ?thesis using assms commit_wellformed
    by (simp add: tb_mouseReleaseEvent_def commit_geom_change_def Let_def)
next
  case (Types b t)
  then show ?thesis using assms by (simp add: user_types_def)
next
  case (EditingFinished b)
  then show ?thesis using assms commit_wellformed request_delete_wellformed
    by (simp add: on_editing_finished_def Let_def)
next
  case (RequestDelete b)
  then show ?thesis using assms request_delete_wellformed by simp
next
  case (FocusIn b)
  have "wellformed (on_selected b s)"
    unfolding on_selected_def by (rule wellformed_cong[OF assms]) simp_all
  then show ?thesis using FocusIn by simp
next
  case (SetTextTool enabled)
  then show ?thesis
    by (auto simp: set_text_tool_def Let_def intro: wellformed_cong[OF assms])
next
  case (SetFontSettings f n)
  then show ?thesis using assms set_font_settings_wellformed by simp
next
  case (SetRenderedPage qpix pidx z)
  then show ?thesis
    by (auto simp: set_rendered_page_def Let_def intro: wellformed_cong[OF assms])
next
  case Undo
  then show ?thesis using assms undo_wellformed by simp
next
  case Redo
  then show ?thesis using assms redo_wellformed by simp
qed

lemma PageView_init_wellformed: "wellformed (PageView_init w0 h0)"
  by (simp add: wellformed_def boxes_allocated_def PageView_init_def)

text \<open>
  Every state reached from a fresh page view, by any events whatever, is well-formed:
  its collection holds no box twice, and only allocated widgets.
\<close>

lemma run_wellformed: "wellformed s \<Longrightarrow> wellformed (run es s)"
  by (induction es arbitrary: s) (simp_all add: step_wellformed)

lemma reachable_distinct_allocated:
  "distinct (boxes (run es (PageView_init w0 h0)))
   \<and> boxes_allocated (run es (PageView_init w0 h0))"
  using run_wellformed[OF PageView_init_wellformed, of es w0 h0]
  by (simp add: wellformed_def)

end
